theory Spec2Isabelle
  imports Complex_Main "HOL-Library.Word" "HOL-Library.Signed_Division"
begin

section \<open>Data model of the convolution engine (cnn-utility.cu)\<close>

text \<open>
  The engine works on single precision floats. The embedding computes with exact
  reals: every statement below about a pixel value is a statement under exact
  arithmetic, the rounding of the device is not modelled.

  Device memory is seen from a base pointer: a buffer maps an element offset to the
  value stored there. Pointer arithmetic of the source (\<^verbatim>\<open>p += k\<close>, \<^verbatim>\<open>p + k\<close>) is addition
  on the offset. A buffer does not carry its extent; where a statement speaks of an
  access being in bounds, the bound is written out.
\<close>

type_synonym buf = "int \<Rightarrow> real"

text \<open>
  \<^verbatim>\<open>mat\<close> is \<^verbatim>\<open>device_matrix<float>\<close> (dataset.h): a column-major matrix, element
  \<open>(r, c)\<close> at offset \<open>c * getRows + r\<close>. The fields are named after its accessors.
\<close>

record mat =
  getRows :: nat
  getCols :: nat
  getData :: buf

text \<open>
  \<^verbatim>\<open>SIZE\<close> and \<^verbatim>\<open>ConvType\<close> are declared in cnn-utility.h, which is not among the
  sources. Modelled from the spec: a dimension is a pair (rows, cols) with elementwise
  add, subtract, divide, maximum and \<^verbatim>\<open>area()\<close>; a subtraction may go negative (the
  VALID size is clamped afterwards), so the components are integers. The boundary mode
  is one of SAME, VALID, FULL, each with a shared-memory variant; a C++ enum can hold
  any other integer, which is what the \<^verbatim>\<open>default:\<close> branches are for.
\<close>

record SIZE =
  sz_m :: int
  sz_n :: int

definition SIZE_add :: "SIZE \<Rightarrow> SIZE \<Rightarrow> SIZE" where
  "SIZE_add a b = \<lparr>sz_m = sz_m a + sz_m b, sz_n = sz_n a + sz_n b\<rparr>"

definition SIZE_sub :: "SIZE \<Rightarrow> SIZE \<Rightarrow> SIZE" where
  "SIZE_sub a b = \<lparr>sz_m = sz_m a - sz_m b, sz_n = sz_n a - sz_n b\<rparr>"

definition SIZE_add_scalar :: "SIZE \<Rightarrow> int \<Rightarrow> SIZE" where
  "SIZE_add_scalar a k = \<lparr>sz_m = sz_m a + k, sz_n = sz_n a + k\<rparr>"

definition SIZE_sub_scalar :: "SIZE \<Rightarrow> int \<Rightarrow> SIZE" where
  "SIZE_sub_scalar a k = \<lparr>sz_m = sz_m a - k, sz_n = sz_n a - k\<rparr>"

definition SIZE_div_scalar :: "SIZE \<Rightarrow> int \<Rightarrow> SIZE" where
  "SIZE_div_scalar a k = \<lparr>sz_m = sz_m a sdiv k, sz_n = sz_n a sdiv k\<rparr>"

definition SIZE_max :: "SIZE \<Rightarrow> SIZE \<Rightarrow> SIZE" where
  "SIZE_max a b = \<lparr>sz_m = max (sz_m a) (sz_m b), sz_n = max (sz_n a) (sz_n b)\<rparr>"

definition area :: "SIZE \<Rightarrow> int" where
  "area a = sz_m a * sz_n a"

datatype ConvType = SAME | SAME_SHM | VALID | VALID_SHM | FULL | FULL_SHM
  | Other_ConvType int

text \<open>The runtime errors the core throws, one constructor per \<^verbatim>\<open>throw\<close> site.\<close>

record dim3 =
  dim_x :: "32 word"
  dim_y :: "32 word"
  dim_z :: "32 word"

datatype error =
    Unknown_type_of_convolution
  | Unknown_convolution_type
  | Exceeds_maximum_shared_memory int int dim3 dim3 nat

section \<open>Output size of a convolution\<close>

text \<open>
  \<^verbatim>\<open>
  SIZE get_convn_size(SIZE data, SIZE kernel, ConvType type) {
    switch (type) {
      case SAME: case SAME_SHM:   return data;
      case VALID: case VALID_SHM: return max(data - kernel + 1, SIZE(0, 0));
      case FULL: case FULL_SHM:   return data + kernel - 1;
      default: throw runtime_error(RED_ERROR + "Unknown type of convolution.");
    };
  }
  \<close>
\<close>

fun get_convn_size :: "SIZE \<Rightarrow> SIZE \<Rightarrow> ConvType \<Rightarrow> error + SIZE" where
  "get_convn_size data kern SAME = Inr data"
| "get_convn_size data kern SAME_SHM = Inr data"
| "get_convn_size data kern VALID =
     Inr (SIZE_max (SIZE_add_scalar (SIZE_sub data kern) 1) \<lparr>sz_m = 0, sz_n = 0\<rparr>)"
| "get_convn_size data kern VALID_SHM =
     Inr (SIZE_max (SIZE_add_scalar (SIZE_sub data kern) 1) \<lparr>sz_m = 0, sz_n = 0\<rparr>)"
| "get_convn_size data kern FULL = Inr (SIZE_sub_scalar (SIZE_add data kern) 1)"
| "get_convn_size data kern FULL_SHM = Inr (SIZE_sub_scalar (SIZE_add data kern) 1)"
| "get_convn_size data kern (Other_ConvType v) = Inl Unknown_type_of_convolution"

text \<open>The overload on matrices reads the two shapes and delegates.\<close>

definition get_convn_size_mat :: "mat \<Rightarrow> mat \<Rightarrow> ConvType \<Rightarrow> error + SIZE" where
  "get_convn_size_mat data kern type =
     (let dSize = \<lparr>sz_m = int (getRows data), sz_n = int (getCols data)\<rparr>;
          kSize = \<lparr>sz_m = int (getRows kern), sz_n = int (getCols kern)\<rparr>
      in get_convn_size dSize kSize type)"

section \<open>The tiling scheduler\<close>

text \<open>
  \<^verbatim>\<open>dim3\<close> holds three \<^verbatim>\<open>unsigned int\<close>; \<^verbatim>\<open>kH\<close> and \<^verbatim>\<open>kW\<close> are \<^verbatim>\<open>int\<close>. In
  \<^verbatim>\<open>( kW * kH + (threads.x + kW - 1) * (threads.y + kH - 1) ) * sizeof(float)\<close>
  the parenthesis is computed in 32-bit unsigned arithmetic (the \<^verbatim>\<open>int\<close> operands are
  converted), and the product with \<^verbatim>\<open>sizeof(float)\<close> in \<^verbatim>\<open>size_t\<close>, where it cannot wrap.
\<close>

definition MAX_SHARED_MEMORY_SIZE :: nat where
  "MAX_SHARED_MEMORY_SIZE = 48 * 1024"

definition SHM_SIZE_of :: "dim3 \<Rightarrow> int \<Rightarrow> int \<Rightarrow> nat" where
  "SHM_SIZE_of threads kH kW =
     unat (word_of_int (kW * kH)
           + (dim_x threads + word_of_int kW - 1) * (dim_y threads + word_of_int kH - 1) :: 32 word) * 4"

text \<open>
  \<^verbatim>\<open>
  while ( SHM_SIZE > MAX_SHARED_MEMORY_SIZE && threads.x * threads.y >= 32 ) {
    if ( threads.x >= threads.y ) { threads.x /= 2; grids.x *= 2; }
    else                          { threads.y /= 2; grids.y *= 2; }
    SHM_SIZE = ( kW * kH + (threads.x + kW - 1) * (threads.y + kH - 1) ) * sizeof(float);
  }
  \<close>
  \<^verbatim>\<open>grids\<close> and \<^verbatim>\<open>threads\<close> are passed by reference: the loop returns both.
\<close>

function getSuitableShmConfig_while :: "dim3 \<Rightarrow> dim3 \<Rightarrow> int \<Rightarrow> int \<Rightarrow> dim3 \<times> dim3" where
  "getSuitableShmConfig_while grids threads kH kW =
     (if SHM_SIZE_of threads kH kW > MAX_SHARED_MEMORY_SIZE \<and> dim_x threads * dim_y threads \<ge> 32
      then (if dim_x threads \<ge> dim_y threads
            then getSuitableShmConfig_while
                   (grids\<lparr>dim_x := dim_x grids * 2\<rparr>) (threads\<lparr>dim_x := dim_x threads div 2\<rparr>) kH kW
            else getSuitableShmConfig_while
                   (grids\<lparr>dim_y := dim_y grids * 2\<rparr>) (threads\<lparr>dim_y := dim_y threads div 2\<rparr>) kH kW)
      else (grids, threads))"
  by pat_completeness auto

termination getSuitableShmConfig_while
proof (relation "measure (\<lambda>(grids, threads, kH, kW). unat (dim_x threads) + unat (dim_y threads))")
  show "wf (measure (\<lambda>(grids, threads, kH, kW). unat (dim_x threads) + unat (dim_y threads)))"
    by simp
next
  fix grids threads :: dim3 and kH kW :: int
  assume c: "MAX_SHARED_MEMORY_SIZE < SHM_SIZE_of threads kH kW \<and> 32 \<le> dim_x threads * dim_y threads"
    and "dim_y threads \<le> dim_x threads"
  have "dim_x threads \<noteq> 0"
  proof
    assume "dim_x threads = 0"
    with c have "(32::32 word) \<le> 0" by simp
    then show False by simp
  qed
  then have "unat (dim_x threads) \<noteq> 0" by (simp add: unat_eq_0)
  moreover have "unat (dim_x threads div 2) = unat (dim_x threads) div 2" by (simp add: unat_div)
  ultimately have "unat (dim_x threads div 2) < unat (dim_x threads)" by simp
  then show "((grids\<lparr>dim_x := dim_x grids * 2\<rparr>, threads\<lparr>dim_x := dim_x threads div 2\<rparr>, kH, kW),
              (grids, threads, kH, kW))
             \<in> measure (\<lambda>(grids, threads, kH, kW). unat (dim_x threads) + unat (dim_y threads))"
    by simp
next
  fix grids threads :: dim3 and kH kW :: int
  assume "MAX_SHARED_MEMORY_SIZE < SHM_SIZE_of threads kH kW \<and> 32 \<le> dim_x threads * dim_y threads"
    and n: "\<not> dim_y threads \<le> dim_x threads"
  have "dim_y threads \<noteq> 0"
  proof
    assume "dim_y threads = 0"
    with n show False by simp
  qed
  then have "unat (dim_y threads) \<noteq> 0" by (simp add: unat_eq_0)
  moreover have "unat (dim_y threads div 2) = unat (dim_y threads) div 2" by (simp add: unat_div)
  ultimately have "unat (dim_y threads div 2) < unat (dim_y threads)" by simp
  then show "((grids\<lparr>dim_y := dim_y grids * 2\<rparr>, threads\<lparr>dim_y := dim_y threads div 2\<rparr>, kH, kW),
              (grids, threads, kH, kW))
             \<in> measure (\<lambda>(grids, threads, kH, kW). unat (dim_x threads) + unat (dim_y threads))"
    by simp
qed

declare getSuitableShmConfig_while.simps [simp del]

text \<open>
  After the loop the function throws when the footprint is still over the budget and
  returns it otherwise. The error value carries what the message prints: the kernel
  shape, the final grid and block, and the byte count.
\<close>

definition getSuitableShmConfig :: "dim3 \<Rightarrow> dim3 \<Rightarrow> int \<Rightarrow> int \<Rightarrow> error + (dim3 \<times> dim3 \<times> nat)" where
  "getSuitableShmConfig grids threads kH kW =
     (case getSuitableShmConfig_while grids threads kH kW of
        (grids', threads') \<Rightarrow>
          if SHM_SIZE_of threads' kH kW > MAX_SHARED_MEMORY_SIZE
          then Inl (Exceeds_maximum_shared_memory kH kW grids' threads' (SHM_SIZE_of threads' kH kW))
          else Inr (grids', threads', SHM_SIZE_of threads' kH kW))"

section \<open>Kernel launches\<close>

text \<open>
  A device thread sees the built-in variables \<^verbatim>\<open>blockDim\<close>, \<^verbatim>\<open>blockIdx\<close> and
  \<^verbatim>\<open>threadIdx\<close>. The kernels convert them to \<^verbatim>\<open>int\<close> at once, so the record holds
  integers.
\<close>

record cuda_thread =
  blockDim_x :: int
  blockDim_y :: int
  blockIdx_x :: int
  blockIdx_y :: int
  blockIdx_z :: int
  threadIdx_x :: int
  threadIdx_y :: int
  threadIdx_z :: int

definition mk_thread :: "dim3 \<Rightarrow> nat \<times> nat \<times> nat \<Rightarrow> nat \<times> nat \<times> nat \<Rightarrow> cuda_thread" where
  "mk_thread threads b t =
     (case b of (bz, by, bx) \<Rightarrow> case t of (tz, ty, tx) \<Rightarrow>
        \<lparr>blockDim_x = uint (dim_x threads), blockDim_y = uint (dim_y threads),
         blockIdx_x = int bx, blockIdx_y = int by, blockIdx_z = int bz,
         threadIdx_x = int tx, threadIdx_y = int ty, threadIdx_z = int tz\<rparr>)"

definition grid_blocks :: "dim3 \<Rightarrow> (nat \<times> nat \<times> nat) list" where
  "grid_blocks grids =
     List.product [0..<unat (dim_z grids)]
       (List.product [0..<unat (dim_y grids)] [0..<unat (dim_x grids)])"

definition block_threads :: "dim3 \<Rightarrow> nat \<times> nat \<times> nat \<Rightarrow> cuda_thread list" where
  "block_threads threads b =
     map (mk_thread threads b)
       (List.product [0..<unat (dim_z threads)]
          (List.product [0..<unat (dim_y threads)] [0..<unat (dim_x threads)]))"

text \<open>
  \<^verbatim>\<open>kernel<<< grids, threads >>>(...)\<close> runs the kernel body once per thread of every
  block of the grid. The device fixes no order; the model runs the threads one after
  another, block by block. CUDA API calls are taken to succeed: a launch the runtime
  would refuse (an empty grid or block, too many threads) and the errors \<^verbatim>\<open>CCE\<close>
  would then throw are outside the model.
\<close>

definition launch :: "dim3 \<Rightarrow> dim3 \<Rightarrow> (cuda_thread \<Rightarrow> 'm \<Rightarrow> 'm) \<Rightarrow> 'm \<Rightarrow> 'm" where
  "launch grids threads body =
     fold (\<lambda>b. fold body (block_threads threads b)) (grid_blocks grids)"

text \<open>
  A kernel that uses shared memory and one \<^verbatim>\<open>__syncthreads()\<close> is given as the code
  before the barrier, which fills the block's shared memory, and the code after it,
  which reads the shared memory and writes global memory. Every thread of a block
  passes the barrier before any thread goes on. The shared memory of a block starts
  with arbitrary contents \<open>shm0\<close>.
\<close>

definition launch_shm ::
  "dim3 \<Rightarrow> dim3 \<Rightarrow> (cuda_thread \<Rightarrow> buf \<Rightarrow> buf) \<Rightarrow> (cuda_thread \<Rightarrow> buf \<Rightarrow> 'm \<Rightarrow> 'm)
     \<Rightarrow> (nat \<times> nat \<times> nat \<Rightarrow> buf) \<Rightarrow> 'm \<Rightarrow> 'm" where
  "launch_shm grids threads before_sync after_sync shm0 =
     fold (\<lambda>b mem.
             let shm = fold before_sync (block_threads threads b) (shm0 b)
             in fold (\<lambda>t. after_sync t shm) (block_threads threads b) mem)
          (grid_blocks grids)"

text \<open>\<^verbatim>\<open>for (int i = 0; i < n; ++i) body\<close>, threading the variables the body updates.\<close>

definition for_int :: "int \<Rightarrow> (int \<Rightarrow> 'a \<Rightarrow> 'a) \<Rightarrow> 'a \<Rightarrow> 'a" where
  "for_int n body = fold body (map int [0..<nat n])"

section \<open>The direct convolution kernels\<close>

text \<open>
  \<^verbatim>\<open>
  __global__ void convn_valid_kernel(float *output, float *data, float *kernel,
      const int H, const int W, const int kH, const int kW) {
    int x = blockIdx.x*blockDim.x + threadIdx.x;
    int y = blockIdx.y*blockDim.y + threadIdx.y;
    const int vH = H - kH + 1, vW = W - kW + 1;
    if (x >= vW || y >= vH) return;
    x += kW - 1;  y += kH - 1;
    float sum = 0;
    for (int i = 0; i < kW; ++i)
      for(int j = 0; j < kH; ++j)
        sum += kernel[ i * kH + j ] * data[ (x - i) * H + (y - j) ];
    x -= kW - 1;  y -= kH - 1;
    output[ x * vH + y ] = sum;
  }
  \<close>
  The kernel body is a function of the thread and of the output buffer it updates.
\<close>

definition convn_valid_kernel ::
  "buf \<Rightarrow> buf \<Rightarrow> int \<Rightarrow> int \<Rightarrow> int \<Rightarrow> int \<Rightarrow> cuda_thread \<Rightarrow> buf \<Rightarrow> buf" where
  "convn_valid_kernel data kern H W kH kW t out =
     (let x = blockIdx_x t * blockDim_x t + threadIdx_x t;
          y = blockIdx_y t * blockDim_y t + threadIdx_y t;
          vH = H - kH + 1;
          vW = W - kW + 1
      in if x \<ge> vW \<or> y \<ge> vH then out
         else let x1 = x + (kW - 1);
                  y1 = y + (kH - 1);
                  sum = for_int kW (\<lambda>i. for_int kH (\<lambda>j sum.
                          sum + kern (i * kH + j) * data ((x1 - i) * H + (y1 - j)))) 0;
                  x2 = x1 - (kW - 1);
                  y2 = y1 - (kH - 1)
              in out(x2 * vH + y2 := sum))"

text \<open>
  \<^verbatim>\<open>convn_same_kernel\<close>: the kernel is centred at \<^verbatim>\<open>(kW / 2, kH / 2)\<close> and
  contributions from outside the data are skipped.
\<close>

definition convn_same_kernel ::
  "buf \<Rightarrow> buf \<Rightarrow> int \<Rightarrow> int \<Rightarrow> int \<Rightarrow> int \<Rightarrow> cuda_thread \<Rightarrow> buf \<Rightarrow> buf" where
  "convn_same_kernel data kern H W kH kW t out =
     (let x = blockIdx_x t * blockDim_x t + threadIdx_x t;
          y = blockIdx_y t * blockDim_y t + threadIdx_y t
      in if x \<ge> W \<or> y \<ge> H then out
         else let i0 = kW sdiv 2;
                  j0 = kH sdiv 2;
                  sum = for_int kW (\<lambda>i. for_int kH (\<lambda>j sum.
                          let ii = x - i + i0; jj = y - j + j0
                          in if ii < 0 \<or> ii \<ge> W \<or> jj < 0 \<or> jj \<ge> H then sum
                             else sum + kern (i * kH + j) * data (ii * H + jj))) 0
              in out(x * H + y := sum))"

text \<open>
  \<^verbatim>\<open>
  __global__ void convn_full_kernel(float *output, float *data, float *kernel,
      int H, int W, int kH, int kW) {
    int x = blockIdx.x*blockDim.x + tx;
    int y = blockIdx.y*blockDim.y + ty;
    const int fH = H + kH - 1, fW = W + kW - 1;
    if (x >= fW || y >= fH) return;
    float sum = 0;
    for (int i = 0; i < kW; ++i) {
      for(int j = 0; j < kH; ++j) {
        int ii = x - i, jj = y - j;
        if ( ii < 0 || ii >= W || jj < 0 || jj >= H ) continue;
        sum += kernel[ i * kH + j ] * data[ ii * H + jj ];
      }
    }
    output[ x * fH + y ] = sum;
  }
  \<close>
\<close>

definition convn_full_kernel ::
  "buf \<Rightarrow> buf \<Rightarrow> int \<Rightarrow> int \<Rightarrow> int \<Rightarrow> int \<Rightarrow> cuda_thread \<Rightarrow> buf \<Rightarrow> buf" where
  "convn_full_kernel data kern H W kH kW t out =
     (let x = blockIdx_x t * blockDim_x t + threadIdx_x t;
          y = blockIdx_y t * blockDim_y t + threadIdx_y t;
          fH = H + kH - 1;
          fW = W + kW - 1
      in if x \<ge> fW \<or> y \<ge> fH then out
         else let sum = for_int kW (\<lambda>i. for_int kH (\<lambda>j sum.
                          let ii = x - i; jj = y - j
                          in if ii < 0 \<or> ii \<ge> W \<or> jj < 0 \<or> jj \<ge> H then sum
                             else sum + kern (i * kH + j) * data (ii * H + jj))) 0
              in out(x * fH + y := sum))"

section \<open>The generic dispatcher\<close>

text \<open>
  \<^verbatim>\<open>
  mat convn(const mat& data, const mat& kernel, ConvType type) {
    int H = data.getRows(), W = data.getCols(),
        kH = kernel.getRows(), kW = kernel.getCols();
    SIZE s = get_convn_size(data, kernel, type);
    mat output(s.m, s.n);
    ALLOCATE_GRIDS_AND_THREADS(output.getCols(), output.getRows());
    switch (type) {
      case SAME:      convn_same_kernel<<< grids, threads, 0, stream >>>(...); break;
      case SAME_SHM:  // TODO
        break;
      case VALID:     convn_valid_kernel<<< grids, threads, 0, stream >>>(...); break;
      case VALID_SHM: // TODO
        break;
      case FULL:      convn_full_kernel<<< grids, threads, 0, stream >>>(...); break;
      case FULL_SHM:  // TODO
        break;
      default: throw runtime_error(RED_ERROR + "Unknown convolution type");
    }
    CCE(cudaPeekAtLastError());
    CCE(cudaDeviceSynchronize());
    return output;
  }
  \<close>
  The macro \<^verbatim>\<open>ALLOCATE_GRIDS_AND_THREADS\<close> (cnn-utility.h) declares \<^verbatim>\<open>grids\<close> and
  \<^verbatim>\<open>threads\<close> from its two arguments; the header is not among the sources, so the
  macro is a parameter \<open>alloc\<close> of every function that uses it. \<^verbatim>\<open>mat output(s.m, s.n)\<close>
  allocates without initialising: the contents \<open>fresh\<close> of the new memory are a
  parameter too. The constructor takes its two sizes as \<^verbatim>\<open>size_t\<close>, 64 bits wide on the
  platforms CUDA targets: the components of \<open>s\<close> are passed as they are, without a clamp,
  and a signed value is converted modulo \<open>2 ^ 64\<close> (\<open>to_size_t\<close>), so that \<open>-1\<close> becomes
  \<open>2 ^ 64 - 1\<close>.
\<close>

definition to_size_t :: "int \<Rightarrow> nat" where
  "to_size_t i = nat (i mod 2 ^ 64)"

text \<open>
  A \<^verbatim>\<open>size_t\<close> passed for an \<^verbatim>\<open>int\<close> parameter (the row counts the layers pass to the kernels
  as steps) is converted to 32 bits, two's complement.
\<close>

definition to_int :: "nat \<Rightarrow> int" where
  "to_int n = (int n + 2 ^ 31) mod 2 ^ 32 - 2 ^ 31"

definition convn ::
  "(int \<Rightarrow> int \<Rightarrow> dim3 \<times> dim3) \<Rightarrow> buf \<Rightarrow> mat \<Rightarrow> mat \<Rightarrow> ConvType \<Rightarrow> error + mat" where
  "convn alloc fresh data kern type =
     (let H = int (getRows data);
          W = int (getCols data);
          kH = int (getRows kern);
          kW = int (getCols kern)
      in case get_convn_size_mat data kern type of
           Inl e \<Rightarrow> Inl e
         | Inr s \<Rightarrow>
             let out = \<lparr>getRows = to_size_t (sz_m s), getCols = to_size_t (sz_n s),
                        getData = fresh\<rparr> in
             case alloc (int (getCols out)) (int (getRows out)) of (grids, threads) \<Rightarrow>
             (case type of
                SAME \<Rightarrow> Inr (out\<lparr>getData :=
                  launch grids threads (convn_same_kernel (getData data) (getData kern) H W kH kW)
                    (getData out)\<rparr>)
              | SAME_SHM \<Rightarrow> Inr out
              | VALID \<Rightarrow> Inr (out\<lparr>getData :=
                  launch grids threads (convn_valid_kernel (getData data) (getData kern) H W kH kW)
                    (getData out)\<rparr>)
              | VALID_SHM \<Rightarrow> Inr out
              | FULL \<Rightarrow> Inr (out\<lparr>getData :=
                  launch grids threads (convn_full_kernel (getData data) (getData kern) H W kH kW)
                    (getData out)\<rparr>)
              | FULL_SHM \<Rightarrow> Inr out
              | Other_ConvType v \<Rightarrow> Inl Unknown_convolution_type))"

section \<open>The shared-memory-tiled kernels\<close>

text \<open>
  \<^verbatim>\<open>for (; tid < n; tid += nThreads) body\<close>: the cooperative copy loop of the tiled
  kernels. A thread that runs has \<^verbatim>\<open>nThreads = blockDim.x * blockDim.y > 0\<close>; for
  \<^verbatim>\<open>nThreads \<le> 0\<close>, which no launched thread sees, the model stops at once.
\<close>

function stride_loop :: "(int \<Rightarrow> 's \<Rightarrow> 's) \<Rightarrow> int \<Rightarrow> int \<Rightarrow> int \<Rightarrow> 's \<Rightarrow> 's" where
  "stride_loop body tid n nThreads s =
     (if tid < n \<and> 0 < nThreads then stride_loop body (tid + nThreads) n nThreads (body tid s)
      else s)"
  by pat_completeness auto
termination
  by (relation "measure (\<lambda>(body, tid, n, nThreads, s). nat (n - tid))") auto

declare stride_loop.simps [simp del]

text \<open>A pointer moved by \<open>k\<close> elements, for the buffers a kernel only reads.\<close>

definition ptr_add :: "buf \<Rightarrow> int \<Rightarrow> buf" where
  "ptr_add p k = (\<lambda>a. p (k + a))"

text \<open>
  \<^verbatim>\<open>
  template <bool rot180kernel>
  __device__ void load_kernel_into_shm(float* const K, const float* const kernel,
      int kH, int kW, int tid, int nThreads) {
    for (; tid<kW * kH; tid += nThreads) {
      int xx = tid / kH, yy = tid % kH;
      if (xx >= kW || yy >= kH) continue;
      if (rot180kernel) K[xx * kH + yy] = kernel[xx * kH + yy];
      else K[(kW - 1 - xx) * kH + (kH - 1 - yy)] = kernel[xx * kH + yy];
    }
  }
  \<close>
  \<^verbatim>\<open>/\<close> and \<^verbatim>\<open>%\<close> on \<^verbatim>\<open>int\<close> truncate towards zero: \<open>sdiv\<close> and \<open>smod\<close>.
\<close>

definition load_kernel_into_shm :: "bool \<Rightarrow> buf \<Rightarrow> int \<Rightarrow> int \<Rightarrow> int \<Rightarrow> int \<Rightarrow> buf \<Rightarrow> buf" where
  "load_kernel_into_shm rot180kernel kern kH kW tid nThreads K =
     stride_loop (\<lambda>tid K.
         let xx = tid sdiv kH; yy = tid smod kH
         in if xx \<ge> kW \<or> yy \<ge> kH then K
            else if rot180kernel then K(xx * kH + yy := kern (xx * kH + yy))
            else K((kW - 1 - xx) * kH + (kH - 1 - yy) := kern (xx * kH + yy)))
       tid (kW * kH) nThreads K"

text \<open>
  \<^verbatim>\<open>convn_valid_kernel_with_shm<rot180data, rot180kernel>\<close>, the code before
  \<^verbatim>\<open>__syncthreads()\<close>. \<^verbatim>\<open>K\<close> is the block's shared array; \<^verbatim>\<open>D = K + kW * kH\<close> is the
  tile of data behind the kernel copy, so \<^verbatim>\<open>D[i]\<close> is \<^verbatim>\<open>K[kW * kH + i]\<close>.
  \<^verbatim>\<open>
    __CUDA_CONSTANTS__;
    output += blockIdx.z * output_step;
    data   += blockIdx.z * data_step;
    kernel += blockIdx.z * kernel_step;
    extern __shared__ float K[];
    load_kernel_into_shm<rot180kernel>(K, kernel, kH, kW, tid, nThreads);
    float* D = K + kW * kH;
    int WIDTH_STEP = blockDim.x + kW - 1, HEIGHT_STEP = blockDim.y + kH - 1;
    int nTotal = WIDTH_STEP * HEIGHT_STEP;
    for (; tid<nTotal; tid += nThreads) {
      int xx = tid / HEIGHT_STEP + x0, yy = tid % HEIGHT_STEP + y0;
      if (xx >= W || yy >= H) continue;
      if (rot180data) D[tid] = data[ (W - 1 - xx) * H + (H - 1 - yy) ];
      else            D[tid] = data[ xx * H + yy ];
    }
    __syncthreads();
  \<close>
\<close>

definition convn_valid_kernel_with_shm_load ::
  "bool \<Rightarrow> bool \<Rightarrow> buf \<Rightarrow> int \<Rightarrow> int \<Rightarrow> buf \<Rightarrow> int \<Rightarrow> int \<Rightarrow> int \<Rightarrow> int \<Rightarrow> cuda_thread \<Rightarrow> buf \<Rightarrow> buf" where
  "convn_valid_kernel_with_shm_load rot180data rot180kernel data H W kern kH kW
       data_step kernel_step t K =
     (let nThreads = blockDim_x t * blockDim_y t;
          tx = threadIdx_x t;
          ty = threadIdx_y t;
          tid = tx + blockDim_x t * ty;
          x0 = blockIdx_x t * blockDim_x t;
          y0 = blockIdx_y t * blockDim_y t;
          data = ptr_add data (blockIdx_z t * data_step);
          kern = ptr_add kern (blockIdx_z t * kernel_step);
          K = load_kernel_into_shm rot180kernel kern kH kW tid nThreads K;
          D = kW * kH;
          WIDTH_STEP = blockDim_x t + kW - 1;
          HEIGHT_STEP = blockDim_y t + kH - 1;
          nTotal = WIDTH_STEP * HEIGHT_STEP
      in stride_loop (\<lambda>tid K.
             let xx = tid sdiv HEIGHT_STEP + x0; yy = tid smod HEIGHT_STEP + y0
             in if xx \<ge> W \<or> yy \<ge> H then K
                else if rot180data then K(D + tid := data ((W - 1 - xx) * H + (H - 1 - yy)))
                else K(D + tid := data (xx * H + yy)))
           tid nTotal nThreads K)"

text \<open>
  The code after the barrier. \<open>out\<close> is the buffer \<^verbatim>\<open>output\<close> points into and
  \<open>output\<close> the offset of the pointer in it.
  \<^verbatim>\<open>
    if (x >= vW || y >= vH) return;
    float sum = 0;
    D += tx * HEIGHT_STEP + ty;
    for (int i = 0; i < kW; ++i)
      for(int j = 0; j < kH; ++j)
        sum += K[ i * kH + j ] * D[ i * HEIGHT_STEP + j ];
    output[ x * vH + y ] += sum;
  \<close>
\<close>

definition convn_valid_kernel_with_shm_compute ::
  "int \<Rightarrow> int \<Rightarrow> int \<Rightarrow> int \<Rightarrow> int \<Rightarrow> int \<Rightarrow> cuda_thread \<Rightarrow> buf \<Rightarrow> buf \<Rightarrow> buf" where
  "convn_valid_kernel_with_shm_compute output vH vW kH kW output_step t K out =
     (let tx = threadIdx_x t;
          ty = threadIdx_y t;
          x0 = blockIdx_x t * blockDim_x t;
          y0 = blockIdx_y t * blockDim_y t;
          x = x0 + tx;
          y = y0 + ty;
          output = output + blockIdx_z t * output_step;
          D = kW * kH;
          HEIGHT_STEP = blockDim_y t + kH - 1
      in if x \<ge> vW \<or> y \<ge> vH then out
         else let D = D + (tx * HEIGHT_STEP + ty);
                  sum = for_int kW (\<lambda>i. for_int kH (\<lambda>j sum.
                          sum + K (i * kH + j) * K (D + (i * HEIGHT_STEP + j)))) 0
              in out(output + (x * vH + y) := out (output + (x * vH + y)) + sum))"

definition convn_valid_kernel_with_shm ::
  "bool \<Rightarrow> bool \<Rightarrow> dim3 \<Rightarrow> dim3 \<Rightarrow> (nat \<times> nat \<times> nat \<Rightarrow> buf) \<Rightarrow> int \<Rightarrow> int \<Rightarrow> int
     \<Rightarrow> buf \<Rightarrow> int \<Rightarrow> int \<Rightarrow> buf \<Rightarrow> int \<Rightarrow> int \<Rightarrow> int \<Rightarrow> int \<Rightarrow> int \<Rightarrow> buf \<Rightarrow> buf" where
  "convn_valid_kernel_with_shm rot180data rot180kernel grids threads shm0
       output vH vW data H W kern kH kW output_step data_step kernel_step =
     launch_shm grids threads
       (convn_valid_kernel_with_shm_load rot180data rot180kernel data H W kern kH kW
          data_step kernel_step)
       (convn_valid_kernel_with_shm_compute output vH vW kH kW output_step)
       shm0"

text \<open>
  \<^verbatim>\<open>convn_full_kernel_with_shm<rot180data, rot180kernel>\<close>. The tile starts
  \<^verbatim>\<open>kW - 1\<close> columns and \<^verbatim>\<open>kH - 1\<close> rows before the block, and cells outside the data
  are filled with zero.
  \<^verbatim>\<open>
    x0 -= (kW - 1);
    y0 -= (kH - 1);
    for (; tid<nTotal; tid += nThreads) {
      int xx = x0 + tid / HEIGHT_STEP, yy = y0 + tid % HEIGHT_STEP;
      if (xx < 0 || xx >= W || yy < 0 || yy >= H) D[tid] = 0;
      else {
        if (rot180data) D[tid] = data[ (W - 1 - xx) * H + (H - 1 - yy) ];
        else            D[tid] = data[ xx * H + yy ];
      }
    }
    __syncthreads();
    if (x >= fW || y >= fH) return;
    float sum = 0;
    D += tx * HEIGHT_STEP + ty;
    for (int i = 0; i < kW; ++i)
      for(int j = 0; j < kH; ++j)
        sum += K[ i * kH + j ] * D[ i * HEIGHT_STEP + j];
    output[ x * fH + y ] += sum;
  \<close>
\<close>

definition convn_full_kernel_with_shm_load ::
  "bool \<Rightarrow> bool \<Rightarrow> buf \<Rightarrow> int \<Rightarrow> int \<Rightarrow> buf \<Rightarrow> int \<Rightarrow> int \<Rightarrow> int \<Rightarrow> int \<Rightarrow> cuda_thread \<Rightarrow> buf \<Rightarrow> buf" where
  "convn_full_kernel_with_shm_load rot180data rot180kernel data H W kern kH kW
       data_step kernel_step t K =
     (let nThreads = blockDim_x t * blockDim_y t;
          tx = threadIdx_x t;
          ty = threadIdx_y t;
          tid = tx + blockDim_x t * ty;
          x0 = blockIdx_x t * blockDim_x t;
          y0 = blockIdx_y t * blockDim_y t;
          data = ptr_add data (blockIdx_z t * data_step);
          kern = ptr_add kern (blockIdx_z t * kernel_step);
          K = load_kernel_into_shm rot180kernel kern kH kW tid nThreads K;
          D = kW * kH;
          WIDTH_STEP = blockDim_x t + kW - 1;
          HEIGHT_STEP = blockDim_y t + kH - 1;
          nTotal = WIDTH_STEP * HEIGHT_STEP;
          x0 = x0 - (kW - 1);
          y0 = y0 - (kH - 1)
      in stride_loop (\<lambda>tid K.
             let xx = x0 + tid sdiv HEIGHT_STEP; yy = y0 + tid smod HEIGHT_STEP
             in if xx < 0 \<or> xx \<ge> W \<or> yy < 0 \<or> yy \<ge> H then K(D + tid := 0)
                else if rot180data then K(D + tid := data ((W - 1 - xx) * H + (H - 1 - yy)))
                else K(D + tid := data (xx * H + yy)))
           tid nTotal nThreads K)"

definition convn_full_kernel_with_shm_compute ::
  "int \<Rightarrow> int \<Rightarrow> int \<Rightarrow> int \<Rightarrow> int \<Rightarrow> int \<Rightarrow> cuda_thread \<Rightarrow> buf \<Rightarrow> buf \<Rightarrow> buf" where
  "convn_full_kernel_with_shm_compute output fH fW kH kW output_step t K out =
     (let tx = threadIdx_x t;
          ty = threadIdx_y t;
          x0 = blockIdx_x t * blockDim_x t;
          y0 = blockIdx_y t * blockDim_y t;
          x = x0 + tx;
          y = y0 + ty;
          output = output + blockIdx_z t * output_step;
          D = kW * kH;
          HEIGHT_STEP = blockDim_y t + kH - 1
      in if x \<ge> fW \<or> y \<ge> fH then out
         else let D = D + (tx * HEIGHT_STEP + ty);
                  sum = for_int kW (\<lambda>i. for_int kH (\<lambda>j sum.
                          sum + K (i * kH + j) * K (D + (i * HEIGHT_STEP + j)))) 0
              in out(output + (x * fH + y) := out (output + (x * fH + y)) + sum))"

definition convn_full_kernel_with_shm ::
  "bool \<Rightarrow> bool \<Rightarrow> dim3 \<Rightarrow> dim3 \<Rightarrow> (nat \<times> nat \<times> nat \<Rightarrow> buf) \<Rightarrow> int \<Rightarrow> int \<Rightarrow> int
     \<Rightarrow> buf \<Rightarrow> int \<Rightarrow> int \<Rightarrow> buf \<Rightarrow> int \<Rightarrow> int \<Rightarrow> int \<Rightarrow> int \<Rightarrow> int \<Rightarrow> buf \<Rightarrow> buf" where
  "convn_full_kernel_with_shm rot180data rot180kernel grids threads shm0
       output fH fW data H W kern kH kW output_step data_step kernel_step =
     launch_shm grids threads
       (convn_full_kernel_with_shm_load rot180data rot180kernel data H W kern kH kW
          data_step kernel_step)
       (convn_full_kernel_with_shm_compute output fH fW kH kW output_step)
       shm0"

section \<open>The pooling kernels\<close>

text \<open>
  The pooling kernels take the image sizes and the scale as \<^verbatim>\<open>uint8_t\<close> and compute
  the pixel coordinates in \<^verbatim>\<open>uint16_t\<close>. The operands of \<^verbatim>\<open>/\<close>, \<^verbatim>\<open>*\<close>, \<^verbatim>\<open>+\<close> and of the
  comparisons are promoted to \<^verbatim>\<open>int\<close> first (\<open>uint\<close>), and a result stored in a
  \<^verbatim>\<open>uint8_t\<close> or \<^verbatim>\<open>uint16_t\<close> variable is truncated (\<open>word_of_int\<close>). A division by
  zero is undefined in C; the model gives it HOL's value 0, and every statement about
  a kernel that divides names the divisor as non-zero.
  \<^verbatim>\<open>
  __global__ void downsample_kernel(float *dst, float *src, const uint8_t scale,
      const uint8_t H, const uint8_t W) {
    uint16_t x = blockIdx.x*blockDim.x + threadIdx.x;
    uint16_t y = blockIdx.y*blockDim.y + threadIdx.y;
    const uint8_t h = H / scale;
    const uint8_t w = W / scale;
    if (y >= w || x >= h) return;
    dst += blockIdx.z * h * w + y * h + x;
    y *= scale;
    x *= scale;
    float sum = 0;
    src += blockIdx.z * H * W + y * H + x;
    for (uint8_t i=0; i<scale; ++i) {
      for (uint8_t j=0; j<scale; ++j) {
        if ( y + i < W && x + j < H )
          sum += src[i * H + j];
      }
    }
    *dst = sum / (scale * scale);
  }
  \<close>
\<close>

definition downsample_kernel ::
  "int \<Rightarrow> buf \<Rightarrow> 8 word \<Rightarrow> 8 word \<Rightarrow> 8 word \<Rightarrow> cuda_thread \<Rightarrow> buf \<Rightarrow> buf" where
  "downsample_kernel dst src scale H W t out =
     (let x = (word_of_int (blockIdx_x t * blockDim_x t + threadIdx_x t) :: 16 word);
          y = (word_of_int (blockIdx_y t * blockDim_y t + threadIdx_y t) :: 16 word);
          h = (word_of_int (uint H div uint scale) :: 8 word);
          w = (word_of_int (uint W div uint scale) :: 8 word)
      in if uint y \<ge> uint w \<or> uint x \<ge> uint h then out
         else let dst = dst + (blockIdx_z t * uint h * uint w + uint y * uint h + uint x);
                  y = (word_of_int (uint y * uint scale) :: 16 word);
                  x = (word_of_int (uint x * uint scale) :: 16 word);
                  src = ptr_add src (blockIdx_z t * uint H * uint W + uint y * uint H + uint x);
                  sum = for_int (uint scale) (\<lambda>i. for_int (uint scale) (\<lambda>j sum.
                          if uint y + i < uint W \<and> uint x + j < uint H
                          then sum + src (i * uint H + j) else sum)) 0
              in out(dst := sum / real_of_int (uint scale * uint scale)))"

text \<open>
  \<^verbatim>\<open>
  __global__ void upsample_kernel(float *dst, float *src, const uint8_t h,
      const uint8_t w, const uint8_t H, const uint8_t W) {
    const uint16_t x = blockIdx.x*blockDim.x + threadIdx.x;
    const uint16_t y = blockIdx.y*blockDim.y + threadIdx.y;
    src += blockIdx.z * h * w;
    dst += blockIdx.z * H * W;
    uint8_t scale = H / h;
    if (y >= W || x >= H) return;
    uint8_t sy = y / scale;
    uint8_t sx = x / scale;
    if (sy == w) --sy;
    if (sx == h) --sx;
    dst[y * H + x] = src[sy * h + sx];
  }
  \<close>
  The source coordinates \<^verbatim>\<open>(sy, sx)\<close> a thread reads are a function of their own, so
  that statements about the read can name them.
\<close>

definition upsample_source :: "8 word \<Rightarrow> 8 word \<Rightarrow> 8 word \<Rightarrow> 16 word \<Rightarrow> 16 word \<Rightarrow> 8 word \<times> 8 word" where
  "upsample_source h w H x y =
     (let scale = (word_of_int (uint H div uint h) :: 8 word);
          sy = (word_of_int (uint y div uint scale) :: 8 word);
          sx = (word_of_int (uint x div uint scale) :: 8 word);
          sy = (if sy = w then sy - 1 else sy);
          sx = (if sx = h then sx - 1 else sx)
      in (sy, sx))"

definition upsample_kernel ::
  "int \<Rightarrow> buf \<Rightarrow> 8 word \<Rightarrow> 8 word \<Rightarrow> 8 word \<Rightarrow> 8 word \<Rightarrow> cuda_thread \<Rightarrow> buf \<Rightarrow> buf" where
  "upsample_kernel dst src h w H W t out =
     (let x = (word_of_int (blockIdx_x t * blockDim_x t + threadIdx_x t) :: 16 word);
          y = (word_of_int (blockIdx_y t * blockDim_y t + threadIdx_y t) :: 16 word);
          src = ptr_add src (blockIdx_z t * uint h * uint w);
          dst = dst + blockIdx_z t * uint H * uint W
      in if uint y \<ge> uint W \<or> uint x \<ge> uint H then out
         else case upsample_source h w H x y of
                (sy, sx) \<Rightarrow> out(dst + (uint y * uint H + uint x) := src (uint sy * uint h + uint sx)))"

section \<open>ConvolutionalLayer\<close>

text \<open>
  The class is declared in a header that is not among the sources. Modelled from the
  spec: the layer owns one kernel per (input map, output map), all of the kernel size,
  and one bias per output map; it records the input image size and the map counts; the
  output image size is derived, \<open>output = input - kernel + 1\<close>. \<open>kernels L i j\<close> is the
  device buffer of \<^verbatim>\<open>_kernels[i][j]\<close> and \<open>bias L j\<close> is \<^verbatim>\<open>_bias[j]\<close>; the map counts
  delimit the indices the code uses.
\<close>

record ConvolutionalLayer =
  getNumInputMaps :: nat
  getNumOutputMaps :: nat
  get_kernel_size :: SIZE
  get_input_img_size :: SIZE
  kernels :: "nat \<Rightarrow> nat \<Rightarrow> buf"
  bias :: "nat \<Rightarrow> real"

definition get_output_img_size :: "ConvolutionalLayer \<Rightarrow> SIZE" where
  "get_output_img_size L = SIZE_add_scalar (SIZE_sub (get_input_img_size L) (get_kernel_size L)) 1"

text \<open>
  \<^verbatim>\<open>operator*\<close> on \<^verbatim>\<open>mat\<close> is the matrix product of the matrix library the repository
  builds on; both operands and the result are column-major.
\<close>

definition mat_mult :: "mat \<Rightarrow> mat \<Rightarrow> mat" where
  "mat_mult A B =
     \<lparr>getRows = getRows A, getCols = getCols B,
      getData = (\<lambda>a. let r = a mod int (getRows A); c = a div int (getRows A)
                     in \<Sum>k<getCols A. getData A (int k * int (getRows A) + r)
                                          * getData B (c * int (getRows B) + int k))\<rparr>"

text \<open>
  \<^verbatim>\<open>
  void ConvolutionalLayer::feedForward(mat& fout, const mat& fin) {
    size_t nInputs = getNumInputMaps(), nOutputs = getNumOutputMaps();
    size_t batch_size = fin.getCols();
    SIZE kernel = this->get_kernel_size();
    SIZE img_in = this->get_input_img_size();
    SIZE img_out = this->get_output_img_size();
    hmat bias(img_out.area() * nOutputs + 1, 1);
    for (size_t j=0; j<nOutputs; ++j) {
      for (size_t a=0; a<img_out.area(); ++a)
        bias[j*img_out.area() + a] = _bias[j];
    }
    fout = mat(bias) * mat(1, batch_size, 1.0f);
    ALLOCATE_GRIDS_AND_THREADS(img_out.n, img_out.m);
    grids.z = batch_size;
    size_t SHM_SIZE = getSuitableShmConfig(grids, threads, kernel.m, kernel.n);
    for (size_t j=0; j<nOutputs; ++j) {
      for (size_t i=0; i<nInputs; ++i) {
        convn_valid_kernel_with_shm<false, false><<< grids, threads, SHM_SIZE, 0 >>>(
            fout.getData() + j * img_out.area(), img_out.m, img_out.n,
            fin.getData()  + i * img_in.area(),  img_in.m,  img_in.n,
            _kernels[i][j].getData(), kernel.m, kernel.n,
            fout.getRows(), fin.getRows(), 0);
      }
    }
    CCE(cudaPeekAtLastError());
  }
  \<close>
  \<open>hmat0\<close> is what the host vector \<^verbatim>\<open>bias\<close> holds when it is constructed; the loop
  overwrites all of it but the last entry. \<open>shm0 j i\<close> is the shared memory the blocks
  of launch \<open>(j, i)\<close> find. Row counts and the bound of the loop over \<^verbatim>\<open>size_t a\<close> are
  \<^verbatim>\<open>size_t\<close> values (\<open>to_size_t\<close>); the kernels take the image sizes and the steps as
  \<^verbatim>\<open>int\<close>.
\<close>

definition ConvolutionalLayer_feedForward ::
  "(int \<Rightarrow> int \<Rightarrow> dim3 \<times> dim3) \<Rightarrow> (nat \<Rightarrow> nat \<Rightarrow> nat \<times> nat \<times> nat \<Rightarrow> buf) \<Rightarrow> buf
     \<Rightarrow> ConvolutionalLayer \<Rightarrow> mat \<Rightarrow> error + mat" where
  "ConvolutionalLayer_feedForward alloc shm0 hmat0 L fin =
     (let nInputs = getNumInputMaps L;
          nOutputs = getNumOutputMaps L;
          batch_size = getCols fin;
          kern_size = get_kernel_size L;
          img_in = get_input_img_size L;
          img_out = get_output_img_size L;
          bias_vec = fold (\<lambda>j. fold (\<lambda>a b. b(int j * area img_out + int a := bias L j))
                               [0..<to_size_t (area img_out)])
                       [0..<nOutputs] hmat0;
          fout = mat_mult
                   \<lparr>getRows = to_size_t (area img_out * int nOutputs + 1), getCols = 1,
                     getData = bias_vec\<rparr>
                   \<lparr>getRows = 1, getCols = batch_size, getData = (\<lambda>a. 1)\<rparr>
      in case alloc (sz_n img_out) (sz_m img_out) of (grids, threads) \<Rightarrow>
         (case getSuitableShmConfig (grids\<lparr>dim_z := of_nat batch_size\<rparr>) threads
                 (sz_m kern_size) (sz_n kern_size) of
            Inl e \<Rightarrow> Inl e
          | Inr (grids, threads, SHM_SIZE) \<Rightarrow>
              Inr (fout\<lparr>getData :=
                fold (\<lambda>j. fold (\<lambda>i.
                    convn_valid_kernel_with_shm False False grids threads (shm0 j i)
                      (int j * area img_out) (sz_m img_out) (sz_n img_out)
                      (ptr_add (getData fin) (int i * area img_in)) (sz_m img_in) (sz_n img_in)
                      (kernels L i j) (sz_m kern_size) (sz_n kern_size)
                      (to_int (getRows fout)) (to_int (getRows fin)) 0)
                  [0..<nInputs]) [0..<nOutputs] (getData fout)\<rparr>)))"

text \<open>
  \<^verbatim>\<open>
  void ConvolutionalLayer::feedBackward(mat& error, const mat& delta) {
    size_t nInputs = getNumInputMaps(), nOutputs = getNumOutputMaps();
    size_t batch_size = delta.getCols();
    SIZE kernel = this->get_kernel_size();
    SIZE img_in = this->get_input_img_size();
    SIZE img_out = this->get_output_img_size();
    error.resize(img_in.area() * nInputs + 1, batch_size, 0.);
    ALLOCATE_GRIDS_AND_THREADS(img_in.n, img_in.m);
    grids.z = batch_size;
    size_t SHM_SIZE = getSuitableShmConfig(grids, threads, kernel.m, kernel.n);
    for (size_t i=0; i<nInputs; ++i) {
      for (size_t j=0; j<nOutputs; ++j) {
        convn_full_kernel_with_shm<false, true><<< grids, threads, SHM_SIZE, 0 >>>(
            error.getData() + i * img_in.area(),  img_in.m,  img_in.n,
            delta.getData() + j * img_out.area(), img_out.m, img_out.n,
            _kernels[i][j].getData(), kernel.m, kernel.n,
            error.getRows(), delta.getRows(), 0);
      }
    }
  }
  \<close>
  \<^verbatim>\<open>resize(rows, cols, value)\<close> of the matrix library sets the shape and fills the matrix
  with the value.
\<close>

definition ConvolutionalLayer_feedBackward ::
  "(int \<Rightarrow> int \<Rightarrow> dim3 \<times> dim3) \<Rightarrow> (nat \<Rightarrow> nat \<Rightarrow> nat \<times> nat \<times> nat \<Rightarrow> buf)
     \<Rightarrow> ConvolutionalLayer \<Rightarrow> mat \<Rightarrow> error + mat" where
  "ConvolutionalLayer_feedBackward alloc shm0 L delta =
     (let nInputs = getNumInputMaps L;
          nOutputs = getNumOutputMaps L;
          batch_size = getCols delta;
          kern_size = get_kernel_size L;
          img_in = get_input_img_size L;
          img_out = get_output_img_size L;
          err = \<lparr>getRows = to_size_t (area img_in * int nInputs + 1), getCols = batch_size,
                 getData = (\<lambda>a. 0)\<rparr>
      in case alloc (sz_n img_in) (sz_m img_in) of (grids, threads) \<Rightarrow>
         (case getSuitableShmConfig (grids\<lparr>dim_z := of_nat batch_size\<rparr>) threads
                 (sz_m kern_size) (sz_n kern_size) of
            Inl e \<Rightarrow> Inl e
          | Inr (grids, threads, SHM_SIZE) \<Rightarrow>
              Inr (err\<lparr>getData :=
                fold (\<lambda>i. fold (\<lambda>j.
                    convn_full_kernel_with_shm False True grids threads (shm0 i j)
                      (int i * area img_in) (sz_m img_in) (sz_n img_in)
                      (ptr_add (getData delta) (int j * area img_out)) (sz_m img_out) (sz_n img_out)
                      (kernels L i j) (sz_m kern_size) (sz_n kern_size)
                      (to_int (getRows err)) (to_int (getRows delta)) 0)
                  [0..<nOutputs]) [0..<nInputs] (getData err)\<rparr>)))"

section \<open>SubSamplingLayer\<close>

text \<open>
  Modelled from the spec: the layer owns an integer pooling scale and the map counts,
  records the input image size, and its output image size is \<open>input / scale\<close>
  (integer division).
\<close>

record SubSamplingLayer =
  sub_getNumInputMaps :: nat
  sub_getNumOutputMaps :: nat
  sub_get_input_img_size :: SIZE
  sub_scale :: nat

definition sub_get_output_img_size :: "SubSamplingLayer \<Rightarrow> SIZE" where
  "sub_get_output_img_size L = SIZE_div_scalar (sub_get_input_img_size L) (int (sub_scale L))"

text \<open>
  \<^verbatim>\<open>
  void SubSamplingLayer::feedForward(mat& fout, const mat& fin) {
    SIZE img_in = this->get_input_img_size();
    SIZE img_out = this->get_output_img_size();
    ALLOCATE_GRIDS_AND_THREADS(img_out.m, img_out.n);
    grids.z = getNumOutputMaps();
    fout.resize(img_out.area() * getNumOutputMaps() + 1, fin.getCols());
    for (size_t i=0; i<fin.getCols(); ++i) {
      downsample_kernel<<<grids, threads>>>(
          fout.getData() + i * fout.getRows(),
          fin.getData() + i * fin.getRows(),
          _scale, img_in.m, img_in.n);
    }
    CCE(cudaDeviceSynchronize());
  }
  \<close>
  \<^verbatim>\<open>resize(rows, cols)\<close> sets the shape and leaves the contents as they are (the old
  contents where the buffer is kept, unspecified ones where it is reallocated):
  \<open>resized\<close> is the memory of \<^verbatim>\<open>fout\<close> after the call. The scale and the image sizes are
  converted to \<^verbatim>\<open>uint8_t\<close> at the kernel call.
\<close>

definition SubSamplingLayer_feedForward ::
  "(int \<Rightarrow> int \<Rightarrow> dim3 \<times> dim3) \<Rightarrow> buf \<Rightarrow> SubSamplingLayer \<Rightarrow> mat \<Rightarrow> mat" where
  "SubSamplingLayer_feedForward alloc resized L fin =
     (let img_in = sub_get_input_img_size L;
          img_out = sub_get_output_img_size L
      in case alloc (sz_m img_out) (sz_n img_out) of (grids, threads) \<Rightarrow>
         let grids = grids\<lparr>dim_z := of_nat (sub_getNumOutputMaps L)\<rparr>;
             fout = \<lparr>getRows = to_size_t (area img_out * int (sub_getNumOutputMaps L) + 1),
                     getCols = getCols fin, getData = resized\<rparr>
         in fout\<lparr>getData :=
              fold (\<lambda>i. launch grids threads
                      (downsample_kernel (int i * int (getRows fout))
                         (ptr_add (getData fin) (int i * int (getRows fin)))
                         (of_nat (sub_scale L)) (word_of_int (sz_m img_in))
                         (word_of_int (sz_n img_in))))
                [0..<getCols fin] (getData fout)\<rparr>)"

text \<open>
  \<^verbatim>\<open>
  void SubSamplingLayer::feedBackward(mat& error, const mat& delta) {
    assert(&delta != &error);
    SIZE img_in = this->get_input_img_size();
    SIZE img_out = this->get_output_img_size();
    ALLOCATE_GRIDS_AND_THREADS(img_in.m, img_in.n);
    grids.z = getNumInputMaps();
    error.resize(img_in.area() * getNumInputMaps() + 1, delta.getCols());
    for (size_t i=0; i<delta.getCols(); ++i) {
      upsample_kernel<<<grids, threads>>>(
          error.getData() + i * error.getRows(),
          delta.getData() + i * delta.getRows(),
          img_out.m, img_out.n, img_in.m, img_in.n);
    }
    error *= 1.0f / (_scale * _scale);
    CCE(cudaDeviceSynchronize());
  }
  \<close>
  \<^verbatim>\<open>error\<close> and \<^verbatim>\<open>delta\<close> are different matrices (the assertion): the model reads one
  buffer and writes another.
\<close>

definition SubSamplingLayer_feedBackward ::
  "(int \<Rightarrow> int \<Rightarrow> dim3 \<times> dim3) \<Rightarrow> buf \<Rightarrow> SubSamplingLayer \<Rightarrow> mat \<Rightarrow> mat" where
  "SubSamplingLayer_feedBackward alloc resized L delta =
     (let img_in = sub_get_input_img_size L;
          img_out = sub_get_output_img_size L
      in case alloc (sz_m img_in) (sz_n img_in) of (grids, threads) \<Rightarrow>
         let grids = grids\<lparr>dim_z := of_nat (sub_getNumInputMaps L)\<rparr>;
             err = \<lparr>getRows = to_size_t (area img_in * int (sub_getNumInputMaps L) + 1),
                    getCols = getCols delta, getData = resized\<rparr>;
             err = err\<lparr>getData :=
                     fold (\<lambda>i. launch grids threads
                             (upsample_kernel (int i * int (getRows err))
                                (ptr_add (getData delta) (int i * int (getRows delta)))
                                (word_of_int (sz_m img_out)) (word_of_int (sz_n img_out))
                                (word_of_int (sz_m img_in)) (word_of_int (sz_n img_in))))
                       [0..<getCols delta] (getData err)\<rparr>
         in err\<lparr>getData := (\<lambda>a. getData err a * (1 / real (sub_scale L * sub_scale L)))\<rparr>)"

section \<open>Notions used to state and prove the properties\<close>

text \<open>
  None of the definitions of this section is part of the program. They name what a
  thread of a tiled kernel adds to its output pixel, and what a launch is when it is
  seen as one update per thread.
\<close>

definition thread_upd :: "('t \<Rightarrow> bool) \<Rightarrow> ('t \<Rightarrow> int) \<Rightarrow> ('t \<Rightarrow> real \<Rightarrow> real) \<Rightarrow> 't \<Rightarrow> buf \<Rightarrow> buf" where
  "thread_upd act addr g t m = (if act t then m(addr t := g t (m (addr t))) else m)"

definition writes_only :: "buf \<Rightarrow> int set \<Rightarrow> (buf \<Rightarrow> buf) \<Rightarrow> bool" where
  "writes_only w S f = (\<forall>s p. f s p = (if p \<in> S then w p else s p))"

definition all_threads :: "dim3 \<Rightarrow> dim3 \<Rightarrow> cuda_thread list" where
  "all_threads grids threads = concat (map (block_threads threads) (grid_blocks grids))"

definition tid_of :: "cuda_thread \<Rightarrow> int" where
  "tid_of t = threadIdx_x t + blockDim_x t * threadIdx_y t"

definition global_x :: "cuda_thread \<Rightarrow> int" where
  "global_x t = blockIdx_x t * blockDim_x t + threadIdx_x t"

definition global_y :: "cuda_thread \<Rightarrow> int" where
  "global_y t = blockIdx_y t * blockDim_y t + threadIdx_y t"

definition K_at :: "bool \<Rightarrow> buf \<Rightarrow> int \<Rightarrow> int \<Rightarrow> int \<Rightarrow> real" where
  "K_at rot180kernel kern kH kW p = kern (if rot180kernel then p else kW * kH - 1 - p)"

definition D_at :: "bool \<Rightarrow> buf \<Rightarrow> int \<Rightarrow> int \<Rightarrow> int \<Rightarrow> int \<Rightarrow> real" where
  "D_at rot180data data H W xx yy =
     (if rot180data then data ((W - 1 - xx) * H + (H - 1 - yy)) else data (xx * H + yy))"

definition D_at0 :: "bool \<Rightarrow> buf \<Rightarrow> int \<Rightarrow> int \<Rightarrow> int \<Rightarrow> int \<Rightarrow> real" where
  "D_at0 rot180data data H W xx yy =
     (if xx < 0 \<or> xx \<ge> W \<or> yy < 0 \<or> yy \<ge> H then 0 else D_at rot180data data H W xx yy)"

definition tile_sum :: "(int \<Rightarrow> real) \<Rightarrow> (int \<Rightarrow> int \<Rightarrow> real) \<Rightarrow> int \<Rightarrow> int \<Rightarrow> int \<Rightarrow> int \<Rightarrow> real" where
  "tile_sum Kv Dv kH kW x y =
     (\<Sum>i<nat kW. \<Sum>j<nat kH. Kv (int i * kH + int j) * Dv (x + int i) (y + int j))"

definition valid_shm_val ::
  "bool \<Rightarrow> bool \<Rightarrow> buf \<Rightarrow> int \<Rightarrow> int \<Rightarrow> buf \<Rightarrow> int \<Rightarrow> int \<Rightarrow> int \<Rightarrow> int \<Rightarrow> int \<Rightarrow> int \<Rightarrow> int \<Rightarrow> real" where
  "valid_shm_val rd rk data H W kern kH kW dstep kstep z x y =
     tile_sum (K_at rk (ptr_add kern (z * kstep)) kH kW) (D_at rd (ptr_add data (z * dstep)) H W)
       kH kW x y"

definition full_shm_val ::
  "bool \<Rightarrow> bool \<Rightarrow> buf \<Rightarrow> int \<Rightarrow> int \<Rightarrow> buf \<Rightarrow> int \<Rightarrow> int \<Rightarrow> int \<Rightarrow> int \<Rightarrow> int \<Rightarrow> int \<Rightarrow> int \<Rightarrow> real" where
  "full_shm_val rd rk data H W kern kH kW dstep kstep z x y =
     tile_sum (K_at rk (ptr_add kern (z * kstep)) kH kW) (D_at0 rd (ptr_add data (z * dstep)) H W)
       kH kW (x - (kW - 1)) (y - (kH - 1))"

definition pix_act :: "int \<Rightarrow> int \<Rightarrow> cuda_thread \<Rightarrow> bool" where
  "pix_act vH vW t \<longleftrightarrow> global_x t < vW \<and> global_y t < vH"

definition pix_addr :: "int \<Rightarrow> int \<Rightarrow> int \<Rightarrow> cuda_thread \<Rightarrow> int" where
  "pix_addr ooff vH ostep t = ooff + blockIdx_z t * ostep + (global_x t * vH + global_y t)"

definition pix_launch ::
  "dim3 \<Rightarrow> dim3 \<Rightarrow> int \<Rightarrow> int \<Rightarrow> int \<Rightarrow> int \<Rightarrow> (int \<Rightarrow> int \<Rightarrow> int \<Rightarrow> real \<Rightarrow> real) \<Rightarrow> buf \<Rightarrow> buf" where
  "pix_launch G T ooff vH vW ostep g =
     fold (thread_upd (pix_act vH vW) (pix_addr ooff vH ostep)
             (\<lambda>t v. g (blockIdx_z t) (global_x t) (global_y t) v))
       (all_threads G T)"

definition acc_launch ::
  "dim3 \<Rightarrow> dim3 \<Rightarrow> int \<Rightarrow> int \<Rightarrow> int \<Rightarrow> int \<Rightarrow> (int \<Rightarrow> int \<Rightarrow> int \<Rightarrow> real) \<Rightarrow> buf \<Rightarrow> buf" where
  "acc_launch G T ooff vH vW ostep c = pix_launch G T ooff vH vW ostep (\<lambda>z x y v. v + c z x y)"

text \<open>
  The reference operations the kernels are compared with, on column-major images: the kernel
  turned by 180 degrees, the cross-correlation and the convolution over the positions where the
  kernel fits (\<open>valid\<close>), and the convolution over every overlap (\<open>full\<close>, the image
  read as zero outside). \<open>covers\<close> says that a launch configuration has one thread for each
  pixel of an \<open>nx\<close> by \<open>ny\<close> output and blocks of depth one.
\<close>

definition rot180 :: "buf \<Rightarrow> int \<Rightarrow> int \<Rightarrow> buf" where
  "rot180 kern kH kW = (\<lambda>p. kern (kW * kH - 1 - p))"

definition valid_corr :: "buf \<Rightarrow> int \<Rightarrow> buf \<Rightarrow> int \<Rightarrow> int \<Rightarrow> int \<Rightarrow> int \<Rightarrow> real" where
  "valid_corr data H kern kH kW x y =
     (\<Sum>i<nat kW. \<Sum>j<nat kH. kern (int i * kH + int j) * data ((x + int i) * H + (y + int j)))"

definition valid_conv :: "buf \<Rightarrow> int \<Rightarrow> buf \<Rightarrow> int \<Rightarrow> int \<Rightarrow> int \<Rightarrow> int \<Rightarrow> real" where
  "valid_conv data H kern kH kW x y =
     (\<Sum>i<nat kW. \<Sum>j<nat kH. kern (int i * kH + int j)
          * data ((x + (kW - 1) - int i) * H + (y + (kH - 1) - int j)))"

definition full_conv :: "buf \<Rightarrow> int \<Rightarrow> int \<Rightarrow> buf \<Rightarrow> int \<Rightarrow> int \<Rightarrow> int \<Rightarrow> int \<Rightarrow> real" where
  "full_conv data H W kern kH kW x y =
     (\<Sum>i<nat kW. \<Sum>j<nat kH.
        if x - int i < 0 \<or> x - int i \<ge> W \<or> y - int j < 0 \<or> y - int j \<ge> H then 0
        else kern (int i * kH + int j) * data ((x - int i) * H + (y - int j)))"

definition covers :: "dim3 \<Rightarrow> dim3 \<Rightarrow> int \<Rightarrow> int \<Rightarrow> bool" where
  "covers grids threads nx ny \<longleftrightarrow>
     0 < uint (dim_x threads) \<and> 0 < uint (dim_y threads) \<and> unat (dim_z threads) = 1
     \<and> nx \<le> uint (dim_x grids) * uint (dim_x threads)
     \<and> ny \<le> uint (dim_y grids) * uint (dim_y threads)"


section \<open>Kernel launches as per-thread updates\<close>

lemma fold_thread_upd_outside:
  "(\<And>t. t \<in> set ts \<Longrightarrow> act t \<Longrightarrow> addr t \<noteq> a) \<Longrightarrow> fold (thread_upd act addr g) ts m a = m a"
  by (induction ts arbitrary: m) (auto simp: thread_upd_def)

lemma fold_thread_upd_at:
  assumes "distinct ts" "t0 \<in> set ts" "act t0"
    and "\<And>t. t \<in> set ts \<Longrightarrow> act t \<Longrightarrow> addr t = addr t0 \<Longrightarrow> t = t0"
  shows "fold (thread_upd act addr g) ts m (addr t0) = g t0 (m (addr t0))"
  using assms
proof (induction ts arbitrary: m)
  case Nil
  then show ?case by simp
next
  case (Cons t ts)
  show ?case
  proof (cases "t = t0")
    case True
    have "t0 \<notin> set ts" using Cons.prems(1) True by simp
    then have "\<And>u. u \<in> set ts \<Longrightarrow> act u \<Longrightarrow> addr u \<noteq> addr t0"
      using Cons.prems(4) by auto
    then have "fold (thread_upd act addr g) ts (thread_upd act addr g t0 m) (addr t0)
        = thread_upd act addr g t0 m (addr t0)"
      by (rule fold_thread_upd_outside)
    moreover have "thread_upd act addr g t0 m (addr t0) = g t0 (m (addr t0))"
      using Cons.prems(3) by (simp add: thread_upd_def)
    ultimately show ?thesis using True by simp
  next
    case False
    then have in_ts: "t0 \<in> set ts" using Cons.prems(2) by simp
    have keep: "thread_upd act addr g t m (addr t0) = m (addr t0)"
      using False Cons.prems(4) [of t] by (auto simp: thread_upd_def)
    have "fold (thread_upd act addr g) ts (thread_upd act addr g t m) (addr t0)
        = g t0 (thread_upd act addr g t m (addr t0))"
      using Cons.prems in_ts by (intro Cons.IH) auto
    then show ?thesis using keep by simp
  qed
qed

lemma writes_only_comp:
  "writes_only w S f \<Longrightarrow> writes_only w T h \<Longrightarrow> writes_only w (S \<union> T) (\<lambda>s. h (f s))"
  by (auto simp: writes_only_def)

lemma writes_only_fold:
  "(\<And>x. x \<in> set xs \<Longrightarrow> writes_only w (S x) (f x)) \<Longrightarrow>
     writes_only w (\<Union>x\<in>set xs. S x) (fold f xs)"
proof (induction xs)
  case Nil
  then show ?case by (simp add: writes_only_def)
next
  case (Cons x xs)
  have a: "writes_only w (S x) (f x)" using Cons.prems by simp
  have b: "writes_only w (\<Union>x\<in>set xs. S x) (fold f xs)" using Cons by simp
  have "writes_only w (S x \<union> (\<Union>x\<in>set xs. S x)) (\<lambda>s. fold f xs (f x s))"
    using a b by (rule writes_only_comp)
  then show ?case by (simp add: writes_only_def)
qed

lemma stride_loop_writes:
  assumes "0 < nT"
    and "\<And>t s. lo \<le> t \<Longrightarrow> t < n \<Longrightarrow> body t s = (if g t then s(a t := w (a t)) else s)"
    and "lo \<le> tid"
  shows "stride_loop body tid n nT s p =
           (if p \<in> {a t |t. tid \<le> t \<and> t < n \<and> (t - tid) mod nT = 0 \<and> g t} then w p else s p)"
  using assms
proof (induction body tid n nT s rule: stride_loop.induct)
  case (1 body tid n nT s)
  let ?S = "\<lambda>tid. {a t |t. tid \<le> t \<and> t < n \<and> (t - tid) mod nT = 0 \<and> g t}"
  show ?case
  proof (cases "tid < n")
    case False
    then have "stride_loop body tid n nT s = s"
      by (subst stride_loop.simps) simp
    moreover have "p \<notin> ?S tid"
      using False by auto
    ultimately show ?thesis by (simp only: if_False)
  next
    case True
    have step: "stride_loop body tid n nT s = stride_loop body (tid + nT) n nT (body tid s)"
      using True "1.prems"(1) by (subst stride_loop.simps) simp
    have ih: "stride_loop body (tid + nT) n nT (body tid s) p =
        (if p \<in> ?S (tid + nT) then w p else body tid s p)"
      using "1.prems" True by (intro "1.IH") auto
    have b: "body tid s = (if g tid then s(a tid := w (a tid)) else s)"
      using "1.prems"(2) [of tid] "1.prems"(3) True by simp
    have key: "tid \<le> t \<and> (t - tid) mod nT = 0 \<longleftrightarrow>
                 t = tid \<or> (tid + nT \<le> t \<and> (t - (tid + nT)) mod nT = 0)" for t
    proof -
      have m: "(t - (tid + nT)) mod nT = (t - tid) mod nT"
        by (simp add: diff_diff_eq [symmetric])
      have "nT \<le> t - tid" if "tid < t" "(t - tid) mod nT = 0"
      proof -
        have "nT dvd t - tid" using that(2) by (simp add: dvd_eq_mod_eq_0)
        then show ?thesis using that(1) by (intro zdvd_imp_le) auto
      qed
      then show ?thesis
        unfolding m using "1.prems"(1) by force
    qed
    have S: "p \<in> ?S tid \<longleftrightarrow> (g tid \<and> p = a tid) \<or> p \<in> ?S (tid + nT)"
    proof -
      define R where "R t \<longleftrightarrow> tid \<le> t \<and> (t - tid) mod nT = 0" for t
      define R' where "R' t \<longleftrightarrow> tid + nT \<le> t \<and> (t - (tid + nT)) mod nT = 0" for t
      have RR: "R t \<longleftrightarrow> t = tid \<or> R' t" for t
        unfolding R_def R'_def by (rule key)
      have 1: "p \<in> ?S tid \<longleftrightarrow> (\<exists>t. p = a t \<and> t < n \<and> g t \<and> R t)"
        unfolding R_def by auto
      have 2: "p \<in> ?S (tid + nT) \<longleftrightarrow> (\<exists>t. p = a t \<and> t < n \<and> g t \<and> R' t)"
        unfolding R'_def by auto
      show ?thesis unfolding 1 2 RR using True by blast
    qed
    define St where "St = ?S tid"
    define Sn where "Sn = ?S (tid + nT)"
    have "stride_loop body tid n nT s p = (if p \<in> St then w p else s p)"
      using step ih S b unfolding St_def [symmetric] Sn_def [symmetric] by auto
    then show ?thesis unfolding St_def .
  qed
qed

lemma fold_thread_upd_additive:
  "fold (thread_upd act addr (\<lambda>t v. v + c t)) ts m a
     = m a + fold (thread_upd act addr (\<lambda>t v. v + c t)) ts (\<lambda>_. 0) a"
proof (induction ts arbitrary: m)
  case Nil
  then show ?case by simp
next
  case (Cons t ts)
  let ?u = "thread_upd act addr (\<lambda>t v. v + c t)"
  have "fold ?u ts (?u t m) a = ?u t m a + fold ?u ts (\<lambda>_. 0) a"
    by (rule Cons.IH)
  moreover have "fold ?u ts (?u t (\<lambda>_. 0)) a = ?u t (\<lambda>_. 0) a + fold ?u ts (\<lambda>_. 0) a"
    by (rule Cons.IH)
  moreover have "?u t m a = m a + ?u t (\<lambda>_. 0) a"
    by (simp add: thread_upd_def)
  ultimately show ?case by simp
qed

lemma fold_fold_concat: "fold (\<lambda>b. fold f (g b)) bs = fold f (concat (map g bs))"
  by (induction bs) auto

lemma launch_all_threads: "launch grids threads body = fold body (all_threads grids threads)"
  by (simp add: launch_def all_threads_def fold_fold_concat)

lemma set_block_threads:
  "t \<in> set (block_threads threads b) \<longleftrightarrow>
     (\<exists>tz ty tx. tz < unat (dim_z threads) \<and> ty < unat (dim_y threads) \<and> tx < unat (dim_x threads)
        \<and> t = mk_thread threads b (tz, ty, tx))"
  by (fastforce simp: block_threads_def)

lemma set_grid_blocks:
  "(bz, by, bx) \<in> set (grid_blocks grids) \<longleftrightarrow>
     bz < unat (dim_z grids) \<and> by < unat (dim_y grids) \<and> bx < unat (dim_x grids)"
  by (auto simp: grid_blocks_def)

lemma mk_thread_inj: "mk_thread threads b t = mk_thread threads b' t' \<longleftrightarrow> b = b' \<and> t = t'"
  by (cases b; cases t; cases b'; cases t') (auto simp: mk_thread_def)

lemma concat_map_product:
  "concat (map (\<lambda>b. map (f b) ys) xs) = map (\<lambda>(b, t). f b t) (List.product xs ys)"
  by (induction xs) auto

lemma distinct_all_threads: "distinct (all_threads grids threads)"
proof -
  let ?bl = "grid_blocks grids"
  let ?tl = "List.product [0..<unat (dim_z threads)]
          (List.product [0..<unat (dim_y threads)] [0..<unat (dim_x threads)])"
  have eq: "all_threads grids threads = map (\<lambda>(b, t). mk_thread threads b t) (List.product ?bl ?tl)"
    by (simp add: all_threads_def block_threads_def [abs_def] concat_map_product)
  have d: "distinct (List.product ?bl ?tl)"
    by (simp add: grid_blocks_def distinct_product)
  have "inj_on (\<lambda>(b, t). mk_thread threads b t) (set (List.product ?bl ?tl))"
    by (auto simp: inj_on_def mk_thread_inj)
  with d show ?thesis unfolding eq by (simp add: distinct_map)
qed

lemma set_all_threads:
  "t \<in> set (all_threads grids threads) \<longleftrightarrow>
     (\<exists>b \<in> set (grid_blocks grids). t \<in> set (block_threads threads b))"
  by (auto simp: all_threads_def)

lemma for_int_sum:
  fixes f :: "int \<Rightarrow> real"
  shows "for_int n (\<lambda>i s. s + f i) a = a + (\<Sum>i<nat n. f (int i))"
proof -
  have "fold (\<lambda>i s. s + f i) (map int [0..<k]) a = a + (\<Sum>i<k. f (int i))" for k
    by (induction k arbitrary: a) (simp_all add: add.assoc)
  then show ?thesis by (simp add: for_int_def)
qed

lemma for_int_nested_sum:
  fixes f :: "int \<Rightarrow> int \<Rightarrow> real"
  shows "for_int n (\<lambda>i. for_int k (\<lambda>j s. s + f i j)) 0 = (\<Sum>i<nat n. \<Sum>j<nat k. f (int i) (int j))"
proof -
  have "(\<lambda>i. for_int k (\<lambda>j s. s + f i j)) = (\<lambda>i s. s + (\<Sum>j<nat k. f i (int j)))"
    by (intro ext) (rule for_int_sum)
  then show ?thesis by (simp add: for_int_sum)
qed

lemma sdiv_nonneg: "0 \<le> a \<Longrightarrow> 0 < b \<Longrightarrow> (a::int) sdiv b = a div b"
  by (auto simp: signed_divide_int_def sgn_if)

lemma smod_nonneg: "0 \<le> a \<Longrightarrow> 0 < b \<Longrightarrow> (a::int) smod b = a mod b"
  by (auto simp: signed_modulo_int_def sgn_if)

lemma stride_loop_writes_only:
  assumes "0 < nT"
    and "\<And>t s. lo \<le> t \<Longrightarrow> t < n \<Longrightarrow> body t s = (if g t then s(a t := w (a t)) else s)"
    and "lo \<le> tid"
  shows "writes_only w {a t |t. tid \<le> t \<and> t < n \<and> (t - tid) mod nT = 0 \<and> g t}
           (stride_loop body tid n nT)"
  unfolding writes_only_def
proof (intro allI)
  fix s p
  show "stride_loop body tid n nT s p =
       (if p \<in> {a t |t. tid \<le> t \<and> t < n \<and> (t - tid) mod nT = 0 \<and> g t} then w p else s p)"
    using assms by (rule stride_loop_writes [where g = g and a = a and w = w and lo = lo])
qed

lemma mk_thread_sel [simp]:
  "blockDim_x (mk_thread T (bz, by, bx) (tz, ty, tx)) = uint (dim_x T)"
  "blockDim_y (mk_thread T (bz, by, bx) (tz, ty, tx)) = uint (dim_y T)"
  "blockIdx_x (mk_thread T (bz, by, bx) (tz, ty, tx)) = int bx"
  "blockIdx_y (mk_thread T (bz, by, bx) (tz, ty, tx)) = int by"
  "blockIdx_z (mk_thread T (bz, by, bx) (tz, ty, tx)) = int bz"
  "threadIdx_x (mk_thread T (bz, by, bx) (tz, ty, tx)) = int tx"
  "threadIdx_y (mk_thread T (bz, by, bx) (tz, ty, tx)) = int ty"
  "threadIdx_z (mk_thread T (bz, by, bx) (tz, ty, tx)) = int tz"
  by (simp_all add: mk_thread_def)

lemma block_has_tid:
  assumes "0 \<le> r" "r < uint (dim_x T) * uint (dim_y T)" "0 < unat (dim_z T)"
  shows "\<exists>t \<in> set (block_threads T b). tid_of t = r"
proof -
  obtain bz "by" bx where b: "b = (bz, by, bx)" by (cases b) auto
  let ?bdx = "unat (dim_x T)"
  let ?bdy = "unat (dim_y T)"
  have u: "uint (dim_x T) = int ?bdx" "uint (dim_y T) = int ?bdy" by simp_all
  have pos: "0 < ?bdx" using assms(1,2) unfolding u by (cases "?bdx = 0") auto
  define n where "n = nat r"
  have n: "n < ?bdx * ?bdy" "int n = r"
    using assms(1,2) unfolding n_def u by (simp_all add: nat_less_iff)
  let ?t = "mk_thread T b (0, n div ?bdx, n mod ?bdx)"
  have "n div ?bdx < ?bdy"
    using n(1) pos by (simp add: less_mult_imp_div_less mult.commute)
  moreover have "n mod ?bdx < ?bdx" using pos by simp
  ultimately have "?t \<in> set (block_threads T b)"
    using assms(3) unfolding set_block_threads by blast
  moreover have "tid_of ?t = r"
  proof -
    have "int (n mod k) + int k * int (n div k) = int n" for k :: nat
      by (simp flip: of_nat_mult of_nat_add)
    from this [of ?bdx] show ?thesis using n(2) by (simp add: tid_of_def b)
  qed
  ultimately show ?thesis by blast
qed

lemma block_tid_nonneg: "t \<in> set (block_threads T b) \<Longrightarrow> 0 \<le> tid_of t"
  by (cases b) (auto simp: set_block_threads tid_of_def)

lemma block_fill:
  fixes w :: buf
  assumes pos: "0 < nT" "nT = uint (dim_x T) * uint (dim_y T)" "0 < unat (dim_z T)"
    and K: "\<And>t s. 0 \<le> t \<Longrightarrow> t < nK \<Longrightarrow> bodyK t s = (if gK t then s(aK t := w (aK t)) else s)"
    and D: "\<And>t s. 0 \<le> t \<Longrightarrow> t < nD \<Longrightarrow> bodyD t s = (if gD t then s(aD t := w (aD t)) else s)"
    and load: "\<And>t. t \<in> set (block_threads T b) \<Longrightarrow>
                 load t = (\<lambda>K. stride_loop bodyD (tid_of t) nD nT (stride_loop bodyK (tid_of t) nK nT K))"
  shows "0 \<le> u \<Longrightarrow> u < nK \<Longrightarrow> gK u \<Longrightarrow> fold load (block_threads T b) s0 (aK u) = w (aK u)"
    and "0 \<le> u \<Longrightarrow> u < nD \<Longrightarrow> gD u \<Longrightarrow> fold load (block_threads T b) s0 (aD u) = w (aD u)"
proof -
  let ?SK = "\<lambda>tid. {aK t |t. tid \<le> t \<and> t < nK \<and> (t - tid) mod nT = 0 \<and> gK t}"
  let ?SD = "\<lambda>tid. {aD t |t. tid \<le> t \<and> t < nD \<and> (t - tid) mod nT = 0 \<and> gD t}"
  let ?S = "\<lambda>t. ?SK (tid_of t) \<union> ?SD (tid_of t)"
  have one: "writes_only w (?S t) (load t)" if t: "t \<in> set (block_threads T b)" for t
  proof -
    have t0: "0 \<le> tid_of t" using t by (rule block_tid_nonneg)
    have a: "writes_only w (?SK (tid_of t)) (stride_loop bodyK (tid_of t) nK nT)"
      using pos(1) K t0
      by (rule stride_loop_writes_only [where g = gK and a = aK and w = w and lo = 0])
    have b: "writes_only w (?SD (tid_of t)) (stride_loop bodyD (tid_of t) nD nT)"
      using pos(1) D t0
      by (rule stride_loop_writes_only [where g = gD and a = aD and w = w and lo = 0])
    show ?thesis unfolding load [OF t] using a b by (rule writes_only_comp)
  qed
  define U where "U = (\<Union>t\<in>set (block_threads T b). ?S t)"
  have "writes_only w (\<Union>t\<in>set (block_threads T b). ?S t) (fold load (block_threads T b))"
    by (rule writes_only_fold) (rule one)
  then have all: "fold load (block_threads T b) s0 p = (if p \<in> U then w p else s0 p)" for p
    unfolding U_def [symmetric] writes_only_def by blast
  have inK: "aK v \<in> U" if "t \<in> set (block_threads T b)" "tid_of t \<le> v" "(v - tid_of t) mod nT = 0"
      "v < nK" "gK v" for t v
  proof -
    have "\<exists>t'. aK v = aK t' \<and> tid_of t \<le> t' \<and> t' < nK \<and> (t' - tid_of t) mod nT = 0 \<and> gK t'"
      using that by (intro exI [of _ v]) simp
    then have "aK v \<in> ?SK (tid_of t)" by (simp only: mem_Collect_eq)
    then have "aK v \<in> ?S t" by (rule UnI1)
    show ?thesis unfolding U_def
    proof (rule UN_I [of t])
      show "t \<in> set (block_threads T b)" by (rule that(1))
      show "aK v \<in> ?S t" by fact
    qed
  qed
  have inD: "aD v \<in> U" if "t \<in> set (block_threads T b)" "tid_of t \<le> v" "(v - tid_of t) mod nT = 0"
      "v < nD" "gD v" for t v
  proof -
    have "\<exists>t'. aD v = aD t' \<and> tid_of t \<le> t' \<and> t' < nD \<and> (t' - tid_of t) mod nT = 0 \<and> gD t'"
      using that by (intro exI [of _ v]) simp
    then have "aD v \<in> ?SD (tid_of t)" by (simp only: mem_Collect_eq)
    then have "aD v \<in> ?S t" by (rule UnI2)
    show ?thesis unfolding U_def
    proof (rule UN_I [of t])
      show "t \<in> set (block_threads T b)" by (rule that(1))
      show "aD v \<in> ?S t" by fact
    qed
  qed
  have cover: "\<exists>t \<in> set (block_threads T b). tid_of t \<le> v \<and> (v - tid_of t) mod nT = 0"
    if "0 \<le> v" for v
  proof -
    have "0 \<le> v mod nT" "v mod nT < nT" using pos(1) by simp_all
    then obtain t where t: "t \<in> set (block_threads T b)" "tid_of t = v mod nT"
      using block_has_tid [of "v mod nT" T b] pos(2,3) by auto
    have le: "v mod nT \<le> v" by (rule zmod_le_nonneg_dividend) (rule that)
    have "(v - v mod nT) mod nT = 0" by (simp add: minus_mod_eq_mult_div)
    with le have "tid_of t \<le> v \<and> (v - tid_of t) mod nT = 0"
      unfolding t(2) by (rule conjI)
    with t(1) show ?thesis by (rule bexI [rotated])
  qed
  {
    assume u: "0 \<le> u" "u < nK" "gK u"
    from cover [OF u(1)]
    obtain t where t: "t \<in> set (block_threads T b)" "tid_of t \<le> u" "(u - tid_of t) mod nT = 0"
      by (elim bexE conjE)
    have "aK u \<in> U" using t u(2,3) by (rule inK)
    then have "(if aK u \<in> U then w (aK u) else s0 (aK u)) = w (aK u)" by (simp only: if_True)
    then show "fold load (block_threads T b) s0 (aK u) = w (aK u)"
      using all [of "aK u"] by (rule back_subst [where P = "\<lambda>x. fold load (block_threads T b) s0 (aK u) = x", rotated])
  }
  {
    assume u: "0 \<le> u" "u < nD" "gD u"
    from cover [OF u(1)]
    obtain t where t: "t \<in> set (block_threads T b)" "tid_of t \<le> u" "(u - tid_of t) mod nT = 0"
      by (elim bexE conjE)
    have "aD u \<in> U" using t u(2,3) by (rule inD)
    then have "(if aD u \<in> U then w (aD u) else s0 (aD u)) = w (aD u)" by (simp only: if_True)
    then show "fold load (block_threads T b) s0 (aD u) = w (aD u)"
      using all [of "aD u"] by (rule back_subst [where P = "\<lambda>x. fold load (block_threads T b) s0 (aD u) = x", rotated])
  }
qed

lemma int_divmod_decomp:
  fixes q r b :: int
  assumes "0 \<le> r" "r < b"
  shows "(q * b + r) div b = q" "(q * b + r) mod b = r"
proof -
  have e: "q * b + r = b * q + r" by simp
  show "(q * b + r) div b = q" using e assms by (rule int_div_pos_eq)
  show "(q * b + r) mod b = r" using e assms by (rule int_mod_pos_eq)
qed

lemma int_div_less_of_less_mult:
  fixes t a b :: int
  assumes "0 < b" "t < a * b"
  shows "t div b < a"
proof (rule ccontr)
  assume "\<not> t div b < a"
  then have "a \<le> t div b" by simp
  then have "a * b \<le> (t div b) * b" using assms(1) by (simp add: mult_right_mono)
  also have "\<dots> \<le> t"
  proof -
    have "t = (t div b) * b + t mod b" by simp
    moreover have "0 \<le> t mod b" using assms(1) by simp
    ultimately show ?thesis by linarith
  qed
  finally show False using assms(2) by simp
qed

lemma kernel_copy_body:
  fixes kern :: buf
  assumes "0 \<le> t" "t < kW * kH" "0 < kH"
  shows "(let xx = t sdiv kH; yy = t smod kH
          in if xx \<ge> kW \<or> yy \<ge> kH then K
             else if rot180kernel then K(xx * kH + yy := kern (xx * kH + yy))
             else K((kW - 1 - xx) * kH + (kH - 1 - yy) := kern (xx * kH + yy)))
         = K((if rot180kernel then t else kW * kH - 1 - t) := kern t)"
proof -
  have sd: "t sdiv kH = t div kH" "t smod kH = t mod kH"
    using assms by (simp_all add: sdiv_nonneg smod_nonneg)
  have xx: "t div kH < kW" using assms(3,2) by (rule int_div_less_of_less_mult)
  have yy: "t mod kH < kH" using assms(3) by simp
  have t: "t div kH * kH + t mod kH = t" by simp
  have flip: "(kW - 1 - t div kH) * kH + (kH - 1 - t mod kH) = kW * kH - 1 - t"
  proof -
    have "(kW - 1 - t div kH) * kH + (kH - 1 - t mod kH)
        = kW * kH - 1 - (t div kH * kH + t mod kH)"
      by (simp add: algebra_simps)
    then show ?thesis unfolding t .
  qed
  show ?thesis
    unfolding sd Let_def using xx yy by (simp add: t flip)
qed

lemma tiled_block_shm:
  fixes kern' s0 :: buf and Dv :: "int \<Rightarrow> real" and rk :: bool and b :: "nat \<times> nat \<times> nat"
    and HS WS nT :: int
  assumes T: "0 < uint (dim_x T)" "0 < uint (dim_y T)" "0 < unat (dim_z T)"
    and k: "0 < kH" "0 < kW"
    and nT: "nT = uint (dim_x T) * uint (dim_y T)"
    and D: "\<And>t s. 0 \<le> t \<Longrightarrow> t < nD \<Longrightarrow>
               bodyD t s = (if gD t then s(kW * kH + t := Dv t) else s)"
    and load: "\<And>t. t \<in> set (block_threads T b) \<Longrightarrow>
                 load t = (\<lambda>K. stride_loop bodyD (tid_of t) nD nT
                                 (load_kernel_into_shm rk kern' kH kW (tid_of t) nT K))"
  defines "S \<equiv> fold load (block_threads T b) s0"
  shows "0 \<le> p \<Longrightarrow> p < kW * kH \<Longrightarrow> S p = K_at rk kern' kH kW p"
    and "0 \<le> u \<Longrightarrow> u < nD \<Longrightarrow> gD u \<Longrightarrow> S (kW * kH + u) = Dv u"
proof -
  define w where "w p = (if p < kW * kH then K_at rk kern' kH kW p else Dv (p - kW * kH))" for p
  define bodyK where "bodyK = (\<lambda>tid K.
         let xx = tid sdiv kH; yy = tid smod kH
         in if xx \<ge> kW \<or> yy \<ge> kH then K
            else if rk then K(xx * kH + yy := kern' (xx * kH + yy))
            else K((kW - 1 - xx) * kH + (kH - 1 - yy) := kern' (xx * kH + yy)))"
  define aK where "aK t = (if rk then t else kW * kH - 1 - t)" for t
  have nT0: "0 < nT" using T nT by simp
  have K: "bodyK t s = (if True then s(aK t := w (aK t)) else s)" if "0 \<le> t" "t < kW * kH" for t s
  proof -
    have "0 \<le> aK t" "aK t < kW * kH" using that by (simp_all add: aK_def)
    then have "w (aK t) = kern' t" by (simp add: w_def K_at_def aK_def)
    then show ?thesis
      unfolding bodyK_def aK_def
      using kernel_copy_body [where kW = kW and kern = kern' and rot180kernel = rk and K = s,
          OF that k(1)]
      by simp
  qed
  have D': "bodyD t s = (if gD t then s(kW * kH + t := w (kW * kH + t)) else s)"
    if "0 \<le> t" "t < nD" for t s
  proof -
    have "w (kW * kH + t) = Dv t" using that by (simp add: w_def)
    then show ?thesis using D [OF that] by simp
  qed
  have load': "load t = (\<lambda>K. stride_loop bodyD (tid_of t) nD nT
                (stride_loop bodyK (tid_of t) (kW * kH) nT K))"
    if tin: "t \<in> set (block_threads T b)" for t
    unfolding load [OF tin] bodyK_def load_kernel_into_shm_def ..
  have fillK: "S (aK u) = w (aK u)" if u: "0 \<le> u" "u < kW * kH" for u
    unfolding S_def
  proof (rule block_fill(1) [where w = w and gK = "\<lambda>t. True" and aK = aK and gD = gD
      and aD = "\<lambda>t. kW * kH + t" and bodyK = bodyK and bodyD = bodyD
      and nT = nT and nK = "kW * kH" and nD = nD])
    show "0 < nT" by (rule nT0)
    show "nT = uint (dim_x T) * uint (dim_y T)" by (rule nT)
    show "0 < unat (dim_z T)" by (rule T(3))
    show "\<And>t s. 0 \<le> t \<Longrightarrow> t < kW * kH \<Longrightarrow> bodyK t s = (if True then s(aK t := w (aK t)) else s)"
      by (rule K)
    show "\<And>t s. 0 \<le> t \<Longrightarrow> t < nD \<Longrightarrow>
        bodyD t s = (if gD t then s(kW * kH + t := w (kW * kH + t)) else s)"
      by (rule D')
    show "\<And>t. t \<in> set (block_threads T b) \<Longrightarrow>
        load t = (\<lambda>K. stride_loop bodyD (tid_of t) nD nT (stride_loop bodyK (tid_of t) (kW * kH) nT K))"
      by (rule load')
    show "0 \<le> u" "u < kW * kH" "True" using u by simp_all
  qed
  have fillD: "S (kW * kH + u) = w (kW * kH + u)" if u: "0 \<le> u" "u < nD" "gD u" for u
    unfolding S_def
  proof (rule block_fill(2) [where w = w and gK = "\<lambda>t. True" and aK = aK and gD = gD
      and aD = "\<lambda>t. kW * kH + t" and bodyK = bodyK and bodyD = bodyD
      and nT = nT and nK = "kW * kH" and nD = nD])
    show "0 < nT" by (rule nT0)
    show "nT = uint (dim_x T) * uint (dim_y T)" by (rule nT)
    show "0 < unat (dim_z T)" by (rule T(3))
    show "\<And>t s. 0 \<le> t \<Longrightarrow> t < kW * kH \<Longrightarrow> bodyK t s = (if True then s(aK t := w (aK t)) else s)"
      by (rule K)
    show "\<And>t s. 0 \<le> t \<Longrightarrow> t < nD \<Longrightarrow>
        bodyD t s = (if gD t then s(kW * kH + t := w (kW * kH + t)) else s)"
      by (rule D')
    show "\<And>t. t \<in> set (block_threads T b) \<Longrightarrow>
        load t = (\<lambda>K. stride_loop bodyD (tid_of t) nD nT (stride_loop bodyK (tid_of t) (kW * kH) nT K))"
      by (rule load')
    show "0 \<le> u" "u < nD" "gD u" using u by simp_all
  qed
  {
    assume p: "0 \<le> p" "p < kW * kH"
    define u where "u = (if rk then p else kW * kH - 1 - p)"
    have u: "0 \<le> u" "u < kW * kH" "aK u = p" using p by (simp_all add: u_def aK_def)
    have "S (aK u) = w (aK u)" using u(1,2) by (rule fillK)
    then show "S p = K_at rk kern' kH kW p" unfolding u(3) using p by (simp add: w_def)
  }
  {
    assume u: "0 \<le> u" "u < nD" "gD u"
    then have "S (kW * kH + u) = w (kW * kH + u)" by (rule fillD)
    then show "S (kW * kH + u) = Dv u" using u(1) by (simp add: w_def)
  }
qed

lemma compute_thread:
  fixes S out :: buf and Kv :: "int \<Rightarrow> real" and Dv :: "int \<Rightarrow> int \<Rightarrow> real"
  assumes t: "t = mk_thread T (biz, biy, bix) (tz, ty, tx)"
    and SK: "\<And>p. 0 \<le> p \<Longrightarrow> p < kW * kH \<Longrightarrow> S p = Kv p"
    and SD: "\<And>i j. global_x t < vW \<Longrightarrow> global_y t < vH \<Longrightarrow> i < nat kW \<Longrightarrow> j < nat kH \<Longrightarrow>
        S (kW * kH + ((int tx + int i) * (uint (dim_y T) + kH - 1) + (int ty + int j)))
          = Dv (xs + int i) (ys + int j)"
  shows "convn_valid_kernel_with_shm_compute ooff vH vW kH kW ostep t S out
     = thread_upd (\<lambda>t. global_x t < vW \<and> global_y t < vH)
         (\<lambda>t. ooff + blockIdx_z t * ostep + (global_x t * vH + global_y t))
         (\<lambda>t v. v + tile_sum Kv Dv kH kW xs ys) t out"
proof (cases "global_x t < vW \<and> global_y t < vH")
  case False
  then show ?thesis
    by (auto simp: convn_valid_kernel_with_shm_compute_def thread_upd_def global_x_def
        global_y_def Let_def t)
next
  case True
  let ?HS = "uint (dim_y T) + kH - 1"
  have sum: "for_int kW (\<lambda>i. for_int kH (\<lambda>j sum.
        sum + S (i * kH + j) * S (kW * kH + (int tx * ?HS + int ty) + (i * ?HS + j)))) 0
      = tile_sum Kv Dv kH kW xs ys"
    unfolding for_int_nested_sum tile_sum_def
  proof (intro sum.cong refl)
    fix i j assume "i \<in> {..<nat kW}" "j \<in> {..<nat kH}"
    then have ij: "i < nat kW" "j < nat kH" by simp_all
    have "0 \<le> int i * kH + int j" using ij by simp
    moreover have "int i * kH + int j < kW * kH"
    proof -
      have "int i + 1 \<le> kW" "int j < kH" using ij by simp_all
      then have "(int i + 1) * kH \<le> kW * kH" using ij(2) by (intro mult_right_mono) simp_all
      with \<open>int j < kH\<close> show ?thesis by (simp add: algebra_simps)
    qed
    ultimately have a: "S (int i * kH + int j) = Kv (int i * kH + int j)" by (rule SK)
    have e: "kW * kH + (int tx * ?HS + int ty) + (int i * ?HS + int j)
        = kW * kH + ((int tx + int i) * ?HS + (int ty + int j))"
      by (simp add: algebra_simps)
    have b: "S (kW * kH + (int tx * ?HS + int ty) + (int i * ?HS + int j)) = Dv (xs + int i) (ys + int j)"
      unfolding e using True ij by (intro SD) simp_all
    show "S (int i * kH + int j) * S (kW * kH + (int tx * ?HS + int ty) + (int i * ?HS + int j))
        = Kv (int i * kH + int j) * Dv (xs + int i) (ys + int j)"
      unfolding a b ..
  qed
  have "convn_valid_kernel_with_shm_compute ooff vH vW kH kW ostep t S out
      = out(ooff + int biz * ostep + (global_x t * vH + global_y t) :=
           out (ooff + int biz * ostep + (global_x t * vH + global_y t))
           + for_int kW (\<lambda>i. for_int kH (\<lambda>j sum.
        sum + S (i * kH + j) * S (kW * kH + (int tx * ?HS + int ty) + (i * ?HS + j)))) 0)"
    using True
    by (simp add: convn_valid_kernel_with_shm_compute_def global_x_def global_y_def Let_def t
        not_le [symmetric])
  then show ?thesis
    unfolding sum using True by (simp add: thread_upd_def t)
qed

lemma tile_cell:
  fixes tx ty i j :: nat and kH kW bdx bdy :: int
  assumes "int tx < bdx" "int ty < bdy" "i < nat kW" "j < nat kH"
  defines "HS \<equiv> bdy + kH - 1"
  defines "u \<equiv> (int tx + int i) * HS + (int ty + int j)"
  shows "0 \<le> u" "u < (bdx + kW - 1) * HS" "u div HS = int tx + int i" "u mod HS = int ty + int j"
proof -
  have r: "0 \<le> int ty + int j" "int ty + int j < HS"
    using assms(2,4) by (simp_all add: HS_def)
  then have HS0: "0 < HS" by simp
  show "u div HS = int tx + int i" "u mod HS = int ty + int j"
    unfolding u_def using r by (rule int_divmod_decomp)+
  show "0 \<le> u" unfolding u_def using r(1) HS0 by simp
  have "int tx + int i + 1 \<le> bdx + kW - 1" using assms(1,3) by simp
  then have "(int tx + int i + 1) * HS \<le> (bdx + kW - 1) * HS"
    using HS0 by (intro mult_right_mono) simp_all
  moreover have "u < (int tx + int i + 1) * HS"
    unfolding u_def using r(2) by (simp add: algebra_simps)
  ultimately show "u < (bdx + kW - 1) * HS" by simp
qed

lemma valid_block_compute:
  fixes data kern s0 :: buf
  assumes T: "0 < uint (dim_x T)" "0 < uint (dim_y T)" "0 < unat (dim_z T)"
    and k: "0 < kH" "0 < kW"
    and fit: "vW + kW - 1 \<le> W" "vH + kH - 1 \<le> H"
    and tin: "t \<in> set (block_threads T b)"
  shows "convn_valid_kernel_with_shm_compute ooff vH vW kH kW ostep t
           (fold (convn_valid_kernel_with_shm_load rd rk data H W kern kH kW dstep kstep)
              (block_threads T b) s0)
       = thread_upd (pix_act vH vW) (pix_addr ooff vH ostep)
           (\<lambda>t v. v + valid_shm_val rd rk data H W kern kH kW dstep kstep
                        (blockIdx_z t) (global_x t) (global_y t)) t"
proof -
  obtain biz biy bix where b: "b = (biz, biy, bix)" by (cases b) auto
  obtain tz ty tx where tt: "tz < unat (dim_z T)" "ty < unat (dim_y T)" "tx < unat (dim_x T)"
      "t = mk_thread T (biz, biy, bix) (tz, ty, tx)"
    using tin unfolding set_block_threads b by blast
  define HS where "HS = uint (dim_y T) + kH - 1"
  define WS where "WS = uint (dim_x T) + kW - 1"
  define x0 where "x0 = int bix * uint (dim_x T)"
  define y0 where "y0 = int biy * uint (dim_y T)"
  define data' where "data' = ptr_add data (int biz * dstep)"
  define kern' where "kern' = ptr_add kern (int biz * kstep)"
  define bodyD where "bodyD = (\<lambda>tid K.
             let xx = tid sdiv HS + x0; yy = tid smod HS + y0
             in if xx \<ge> W \<or> yy \<ge> H then K
                else if rd then K(kW * kH + tid := data' ((W - 1 - xx) * H + (H - 1 - yy)))
                else K(kW * kH + tid := data' (xx * H + yy)))"
  define gD where "gD u \<longleftrightarrow> \<not> (u div HS + x0 \<ge> W \<or> u mod HS + y0 \<ge> H)" for u
  define Dv where "Dv u = D_at rd data' H W (u div HS + x0) (u mod HS + y0)" for u
  define S where "S = fold (convn_valid_kernel_with_shm_load rd rk data H W kern kH kW dstep kstep)
              (block_threads T b) s0"
  have HS0: "0 < HS" using T k by (simp add: HS_def)
  have D: "bodyD u s = (if gD u then s(kW * kH + u := Dv u) else s)"
    if "0 \<le> u" "u < WS * HS" for u s
  proof -
    have sd: "u sdiv HS = u div HS" "u smod HS = u mod HS"
      using that HS0 by (simp_all add: sdiv_nonneg smod_nonneg)
    show ?thesis unfolding bodyD_def sd Let_def gD_def Dv_def by (simp add: D_at_def)
  qed
  have load: "convn_valid_kernel_with_shm_load rd rk data H W kern kH kW dstep kstep t'
       = (\<lambda>K. stride_loop bodyD (tid_of t') (WS * HS) (uint (dim_x T) * uint (dim_y T))
                (load_kernel_into_shm rk kern' kH kW (tid_of t') (uint (dim_x T) * uint (dim_y T)) K))"
    if t': "t' \<in> set (block_threads T b)" for t'
  proof -
    obtain tz ty tx where "t' = mk_thread T (biz, biy, bix) (tz, ty, tx)"
      using t' unfolding set_block_threads b by blast
    then show ?thesis
      unfolding bodyD_def HS_def WS_def data'_def kern'_def x0_def y0_def
      by (intro ext) (simp add: convn_valid_kernel_with_shm_load_def Let_def tid_of_def)
  qed
  have SK: "S p = K_at rk kern' kH kW p" if p: "0 \<le> p" "p < kW * kH" for p
    unfolding S_def
  proof (rule tiled_block_shm(1) [where Dv = Dv and gD = gD and bodyD = bodyD
      and nD = "WS * HS" and nT = "uint (dim_x T) * uint (dim_y T)"])
    show "0 < uint (dim_x T)" "0 < uint (dim_y T)" "0 < unat (dim_z T)" "0 < kH" "0 < kW"
      by (rule T k)+
    show "uint (dim_x T) * uint (dim_y T) = uint (dim_x T) * uint (dim_y T)" by (rule refl)
    show "\<And>u s. 0 \<le> u \<Longrightarrow> u < WS * HS \<Longrightarrow>
        bodyD u s = (if gD u then s(kW * kH + u := Dv u) else s)" by (rule D)
    show "\<And>t'. t' \<in> set (block_threads T b) \<Longrightarrow>
        convn_valid_kernel_with_shm_load rd rk data H W kern kH kW dstep kstep t'
       = (\<lambda>K. stride_loop bodyD (tid_of t') (WS * HS) (uint (dim_x T) * uint (dim_y T))
                (load_kernel_into_shm rk kern' kH kW (tid_of t') (uint (dim_x T) * uint (dim_y T)) K))"
      by (rule load)
    show "0 \<le> p" "p < kW * kH" by (rule p)+
  qed
  have SD: "S (kW * kH + u) = Dv u" if u: "0 \<le> u" "u < WS * HS" "gD u" for u
    unfolding S_def
  proof (rule tiled_block_shm(2) [where Dv = Dv and gD = gD and bodyD = bodyD
      and nD = "WS * HS" and nT = "uint (dim_x T) * uint (dim_y T)" and rk = rk and kern' = kern'])
    show "0 < uint (dim_x T)" "0 < uint (dim_y T)" "0 < unat (dim_z T)" "0 < kH" "0 < kW"
      by (rule T k)+
    show "uint (dim_x T) * uint (dim_y T) = uint (dim_x T) * uint (dim_y T)" by (rule refl)
    show "\<And>u s. 0 \<le> u \<Longrightarrow> u < WS * HS \<Longrightarrow>
        bodyD u s = (if gD u then s(kW * kH + u := Dv u) else s)" by (rule D)
    show "\<And>t'. t' \<in> set (block_threads T b) \<Longrightarrow>
        convn_valid_kernel_with_shm_load rd rk data H W kern kH kW dstep kstep t'
       = (\<lambda>K. stride_loop bodyD (tid_of t') (WS * HS) (uint (dim_x T) * uint (dim_y T))
                (load_kernel_into_shm rk kern' kH kW (tid_of t') (uint (dim_x T) * uint (dim_y T)) K))"
      by (rule load)
    show "0 \<le> u" "u < WS * HS" "gD u" by (rule u)+
  qed
  have gx: "global_x t = x0 + int tx" and gy: "global_y t = y0 + int ty"
    by (simp_all add: global_x_def global_y_def tt(4) x0_def y0_def)
  have cell: "S (kW * kH + ((int tx + int i) * (uint (dim_y T) + kH - 1) + (int ty + int j)))
          = D_at rd data' H W (global_x t + int i) (global_y t + int j)"
    if act: "global_x t < vW" "global_y t < vH" and ij: "i < nat kW" "j < nat kH" for i j
  proof -
    define u where "u = (int tx + int i) * HS + (int ty + int j)"
    have tb: "int tx < uint (dim_x T)" "int ty < uint (dim_y T)"
      using tt(2,3) by (simp_all only: uint_nat of_nat_less_iff)
    note c = tile_cell [OF tb ij, folded HS_def WS_def, folded u_def]
    have "u div HS + x0 < W" "u mod HS + y0 < H"
      unfolding c using act ij fit gx gy by simp_all
    then have "gD u" by (simp add: gD_def)
    with c(1,2) have "S (kW * kH + u) = Dv u" unfolding WS_def [symmetric] by (intro SD)
    moreover have "Dv u = D_at rd data' H W (global_x t + int i) (global_y t + int j)"
      unfolding Dv_def c(3,4) gx gy by (simp add: add_ac)
    ultimately have "S (kW * kH + u) = D_at rd data' H W (global_x t + int i) (global_y t + int j)"
      by simp
    then show ?thesis unfolding u_def HS_def .
  qed
  have "convn_valid_kernel_with_shm_compute ooff vH vW kH kW ostep t S out
     = thread_upd (\<lambda>t. global_x t < vW \<and> global_y t < vH)
         (\<lambda>t. ooff + blockIdx_z t * ostep + (global_x t * vH + global_y t))
         (\<lambda>t' v. v + tile_sum (K_at rk kern' kH kW) (D_at rd data' H W) kH kW (global_x t) (global_y t))
         t out" for out
    using tt(4) SK cell by (rule compute_thread)
  then show ?thesis
    unfolding S_def [symmetric]
    by (intro ext)
      (simp add: thread_upd_def pix_act_def pix_addr_def valid_shm_val_def data'_def kern'_def tt(4))
qed

lemma full_block_compute:
  fixes data kern s0 :: buf
  assumes T: "0 < uint (dim_x T)" "0 < uint (dim_y T)" "0 < unat (dim_z T)"
    and k: "0 < kH" "0 < kW"
    and tin: "t \<in> set (block_threads T b)"
  shows "convn_full_kernel_with_shm_compute ooff vH vW kH kW ostep t
           (fold (convn_full_kernel_with_shm_load rd rk data H W kern kH kW dstep kstep)
              (block_threads T b) s0)
       = thread_upd (pix_act vH vW) (pix_addr ooff vH ostep)
           (\<lambda>t v. v + full_shm_val rd rk data H W kern kH kW dstep kstep
                        (blockIdx_z t) (global_x t) (global_y t)) t"
proof -
  obtain biz biy bix where b: "b = (biz, biy, bix)" by (cases b) auto
  obtain tz ty tx where tt: "tz < unat (dim_z T)" "ty < unat (dim_y T)" "tx < unat (dim_x T)"
      "t = mk_thread T (biz, biy, bix) (tz, ty, tx)"
    using tin unfolding set_block_threads b by blast
  define HS where "HS = uint (dim_y T) + kH - 1"
  define WS where "WS = uint (dim_x T) + kW - 1"
  define x0 where "x0 = int bix * uint (dim_x T) - (kW - 1)"
  define y0 where "y0 = int biy * uint (dim_y T) - (kH - 1)"
  define data' where "data' = ptr_add data (int biz * dstep)"
  define kern' where "kern' = ptr_add kern (int biz * kstep)"
  define bodyD where "bodyD = (\<lambda>tid K.
             let xx = x0 + tid sdiv HS; yy = y0 + tid smod HS
             in if xx < 0 \<or> xx \<ge> W \<or> yy < 0 \<or> yy \<ge> H then K(kW * kH + tid := 0)
                else if rd then K(kW * kH + tid := data' ((W - 1 - xx) * H + (H - 1 - yy)))
                else K(kW * kH + tid := data' (xx * H + yy)))"
  define gD where "gD u \<longleftrightarrow> True" for u :: int
  define Dv where "Dv u = D_at0 rd data' H W (x0 + u div HS) (y0 + u mod HS)" for u
  define S where "S = fold (convn_full_kernel_with_shm_load rd rk data H W kern kH kW dstep kstep)
              (block_threads T b) s0"
  have HS0: "0 < HS" using T k by (simp add: HS_def)
  have D: "bodyD u s = (if gD u then s(kW * kH + u := Dv u) else s)"
    if "0 \<le> u" "u < WS * HS" for u s
  proof -
    have sd: "u sdiv HS = u div HS" "u smod HS = u mod HS"
      using that HS0 by (simp_all add: sdiv_nonneg smod_nonneg)
    show ?thesis unfolding bodyD_def sd Let_def gD_def Dv_def by (simp add: D_at0_def D_at_def)
  qed
  have load: "convn_full_kernel_with_shm_load rd rk data H W kern kH kW dstep kstep t'
       = (\<lambda>K. stride_loop bodyD (tid_of t') (WS * HS) (uint (dim_x T) * uint (dim_y T))
                (load_kernel_into_shm rk kern' kH kW (tid_of t') (uint (dim_x T) * uint (dim_y T)) K))"
    if t': "t' \<in> set (block_threads T b)" for t'
  proof -
    obtain tz ty tx where "t' = mk_thread T (biz, biy, bix) (tz, ty, tx)"
      using t' unfolding set_block_threads b by blast
    then show ?thesis
      unfolding bodyD_def HS_def WS_def data'_def kern'_def x0_def y0_def
      by (intro ext) (simp add: convn_full_kernel_with_shm_load_def Let_def tid_of_def)
  qed
  have SK: "S p = K_at rk kern' kH kW p" if p: "0 \<le> p" "p < kW * kH" for p
    unfolding S_def
  proof (rule tiled_block_shm(1) [where Dv = Dv and gD = gD and bodyD = bodyD
      and nD = "WS * HS" and nT = "uint (dim_x T) * uint (dim_y T)"])
    show "0 < uint (dim_x T)" "0 < uint (dim_y T)" "0 < unat (dim_z T)" "0 < kH" "0 < kW"
      by (rule T k)+
    show "uint (dim_x T) * uint (dim_y T) = uint (dim_x T) * uint (dim_y T)" by (rule refl)
    show "\<And>u s. 0 \<le> u \<Longrightarrow> u < WS * HS \<Longrightarrow>
        bodyD u s = (if gD u then s(kW * kH + u := Dv u) else s)" by (rule D)
    show "\<And>t'. t' \<in> set (block_threads T b) \<Longrightarrow>
        convn_full_kernel_with_shm_load rd rk data H W kern kH kW dstep kstep t'
       = (\<lambda>K. stride_loop bodyD (tid_of t') (WS * HS) (uint (dim_x T) * uint (dim_y T))
                (load_kernel_into_shm rk kern' kH kW (tid_of t') (uint (dim_x T) * uint (dim_y T)) K))"
      by (rule load)
    show "0 \<le> p" "p < kW * kH" by (rule p)+
  qed
  have SD: "S (kW * kH + u) = Dv u" if u: "0 \<le> u" "u < WS * HS" "gD u" for u
    unfolding S_def
  proof (rule tiled_block_shm(2) [where Dv = Dv and gD = gD and bodyD = bodyD
      and nD = "WS * HS" and nT = "uint (dim_x T) * uint (dim_y T)" and rk = rk and kern' = kern'])
    show "0 < uint (dim_x T)" "0 < uint (dim_y T)" "0 < unat (dim_z T)" "0 < kH" "0 < kW"
      by (rule T k)+
    show "uint (dim_x T) * uint (dim_y T) = uint (dim_x T) * uint (dim_y T)" by (rule refl)
    show "\<And>u s. 0 \<le> u \<Longrightarrow> u < WS * HS \<Longrightarrow>
        bodyD u s = (if gD u then s(kW * kH + u := Dv u) else s)" by (rule D)
    show "\<And>t'. t' \<in> set (block_threads T b) \<Longrightarrow>
        convn_full_kernel_with_shm_load rd rk data H W kern kH kW dstep kstep t'
       = (\<lambda>K. stride_loop bodyD (tid_of t') (WS * HS) (uint (dim_x T) * uint (dim_y T))
                (load_kernel_into_shm rk kern' kH kW (tid_of t') (uint (dim_x T) * uint (dim_y T)) K))"
      by (rule load)
    show "0 \<le> u" "u < WS * HS" "gD u" by (rule u)+
  qed
  have gx: "global_x t - (kW - 1) = x0 + int tx" and gy: "global_y t - (kH - 1) = y0 + int ty"
    by (simp_all add: global_x_def global_y_def tt(4) x0_def y0_def)
  have cell: "S (kW * kH + ((int tx + int i) * (uint (dim_y T) + kH - 1) + (int ty + int j)))
          = D_at0 rd data' H W (global_x t - (kW - 1) + int i) (global_y t - (kH - 1) + int j)"
    if ij: "i < nat kW" "j < nat kH" for i j
  proof -
    define u where "u = (int tx + int i) * HS + (int ty + int j)"
    have tb: "int tx < uint (dim_x T)" "int ty < uint (dim_y T)"
      using tt(2,3) by (simp_all only: uint_nat of_nat_less_iff)
    note c = tile_cell [OF tb ij, folded HS_def WS_def, folded u_def]
    have "gD u" by (simp add: gD_def)
    with c(1,2) have "S (kW * kH + u) = Dv u" unfolding WS_def [symmetric] by (intro SD)
    moreover have "Dv u = D_at0 rd data' H W (global_x t - (kW - 1) + int i) (global_y t - (kH - 1) + int j)"
      unfolding Dv_def c(3,4) gx gy by (simp add: add_ac)
    ultimately have "S (kW * kH + u)
        = D_at0 rd data' H W (global_x t - (kW - 1) + int i) (global_y t - (kH - 1) + int j)"
      by simp
    then show ?thesis unfolding u_def HS_def .
  qed
  have same: "convn_full_kernel_with_shm_compute = convn_valid_kernel_with_shm_compute"
    by (intro ext)
      (simp add: convn_full_kernel_with_shm_compute_def convn_valid_kernel_with_shm_compute_def)
  have "convn_full_kernel_with_shm_compute ooff vH vW kH kW ostep t S out
     = thread_upd (\<lambda>t. global_x t < vW \<and> global_y t < vH)
         (\<lambda>t. ooff + blockIdx_z t * ostep + (global_x t * vH + global_y t))
         (\<lambda>t' v. v + tile_sum (K_at rk kern' kH kW) (D_at0 rd data' H W) kH kW
            (global_x t - (kW - 1)) (global_y t - (kH - 1)))
         t out" for out
    unfolding same using tt(4) SK cell by (rule compute_thread)
  then show ?thesis
    unfolding S_def [symmetric]
    by (intro ext)
      (simp add: thread_upd_def pix_act_def pix_addr_def full_shm_val_def data'_def kern'_def tt(4))
qed

lemma launch_shm_fold:
  assumes "\<And>b t s0. b \<in> set (grid_blocks G) \<Longrightarrow> t \<in> set (block_threads T b) \<Longrightarrow>
             compute t (fold load (block_threads T b) s0) = upd t"
  shows "launch_shm G T load compute shm0 = fold upd (all_threads G T)"
proof -
  have blk: "(\<lambda>mem. let shm = fold load (block_threads T b) (shm0 b)
                    in fold (\<lambda>t. compute t shm) (block_threads T b) mem)
           = fold upd (block_threads T b)" if b: "b \<in> set (grid_blocks G)" for b
  proof (intro ext)
    fix mem
    have "fold (\<lambda>t. compute t (fold load (block_threads T b) (shm0 b))) (block_threads T b) mem
        = fold upd (block_threads T b) mem"
      using assms [OF b] by (intro fold_cong refl)
    then show "(let shm = fold load (block_threads T b) (shm0 b)
                in fold (\<lambda>t. compute t shm) (block_threads T b) mem)
             = fold upd (block_threads T b) mem"
      by (simp add: Let_def)
  qed
  have "launch_shm G T load compute shm0 = fold (\<lambda>b. fold upd (block_threads T b)) (grid_blocks G)"
    unfolding launch_shm_def
  proof (rule ext, rule fold_cong [OF refl refl])
    fix b assume "b \<in> set (grid_blocks G)"
    then show "(\<lambda>mem. let shm = fold load (block_threads T b) (shm0 b)
                    in fold (\<lambda>t. compute t shm) (block_threads T b) mem)
           = fold upd (block_threads T b)"
      by (rule blk)
  qed
  then show ?thesis by (simp add: fold_fold_concat all_threads_def)
qed

lemma convn_valid_kernel_with_shm_fold:
  assumes "0 < uint (dim_x T)" "0 < uint (dim_y T)" "0 < unat (dim_z T)" "0 < kH" "0 < kW"
    and "vW + kW - 1 \<le> W" "vH + kH - 1 \<le> H"
  shows "convn_valid_kernel_with_shm rd rk G T shm0 ooff vH vW data H W kern kH kW ostep dstep kstep
       = fold (thread_upd (pix_act vH vW) (pix_addr ooff vH ostep)
           (\<lambda>t v. v + valid_shm_val rd rk data H W kern kH kW dstep kstep
                        (blockIdx_z t) (global_x t) (global_y t))) (all_threads G T)"
  unfolding convn_valid_kernel_with_shm_def
  by (rule launch_shm_fold) (rule valid_block_compute [OF assms])

lemma convn_full_kernel_with_shm_fold:
  assumes "0 < uint (dim_x T)" "0 < uint (dim_y T)" "0 < unat (dim_z T)" "0 < kH" "0 < kW"
  shows "convn_full_kernel_with_shm rd rk G T shm0 ooff fH fW data H W kern kH kW ostep dstep kstep
       = fold (thread_upd (pix_act fH fW) (pix_addr ooff fH ostep)
           (\<lambda>t v. v + full_shm_val rd rk data H W kern kH kW dstep kstep
                        (blockIdx_z t) (global_x t) (global_y t))) (all_threads G T)"
  unfolding convn_full_kernel_with_shm_def
  by (rule launch_shm_fold) (rule full_block_compute [OF assms])

lemma int_decomp_unique:
  fixes q q' r r' b :: int
  assumes "0 \<le> r" "r < b" "0 \<le> r'" "r' < b" "q * b + r = q' * b + r'"
  shows "q = q'" "r = r'"
proof -
  from assms(5) have "(q * b + r) div b = (q' * b + r') div b" by (rule arg_cong)
  then show "q = q'"
    unfolding int_divmod_decomp(1) [OF assms(1,2)] int_divmod_decomp(1) [OF assms(3,4)] .
  from assms(5) have "(q * b + r) mod b = (q' * b + r') mod b" by (rule arg_cong)
  then show "r = r'"
    unfolding int_divmod_decomp(2) [OF assms(1,2)] int_divmod_decomp(2) [OF assms(3,4)] .
qed

lemma pixel_thread_exists:
  assumes T: "0 < uint (dim_x T)" "0 < uint (dim_y T)" "0 < unat (dim_z T)"
    and z: "z < unat (dim_z G)"
    and x: "0 \<le> x" "x < uint (dim_x G) * uint (dim_x T)"
    and y: "0 \<le> y" "y < uint (dim_y G) * uint (dim_y T)"
  shows "\<exists>t \<in> set (all_threads G T). blockIdx_z t = int z \<and> global_x t = x \<and> global_y t = y"
proof -
  define bx where "bx = nat (x div uint (dim_x T))"
  define tx where "tx = nat (x mod uint (dim_x T))"
  define byy where "byy = nat (y div uint (dim_y T))"
  define ty where "ty = nat (y mod uint (dim_y T))"
  have bx: "int bx = x div uint (dim_x T)" "bx < unat (dim_x G)"
  proof -
    show a: "int bx = x div uint (dim_x T)" using x(1) T(1) by (simp add: bx_def pos_imp_zdiv_nonneg_iff)
    have "x div uint (dim_x T) < uint (dim_x G)" using T(1) x(2) by (rule int_div_less_of_less_mult)
    then have "int bx < int (unat (dim_x G))" unfolding a by (simp only: uint_nat)
    then show "bx < unat (dim_x G)" by (simp only: of_nat_less_iff)
  qed
  have tx: "int tx = x mod uint (dim_x T)" "tx < unat (dim_x T)"
  proof -
    show a: "int tx = x mod uint (dim_x T)" using T(1) by (simp add: tx_def)
    have "x mod uint (dim_x T) < uint (dim_x T)" using T(1) by simp
    then have "int tx < int (unat (dim_x T))" unfolding a by (simp only: uint_nat)
    then show "tx < unat (dim_x T)" by (simp only: of_nat_less_iff)
  qed
  have byy: "int byy = y div uint (dim_y T)" "byy < unat (dim_y G)"
  proof -
    show a: "int byy = y div uint (dim_y T)" using y(1) T(2) by (simp add: byy_def pos_imp_zdiv_nonneg_iff)
    have "y div uint (dim_y T) < uint (dim_y G)" using T(2) y(2) by (rule int_div_less_of_less_mult)
    then have "int byy < int (unat (dim_y G))" unfolding a by (simp only: uint_nat)
    then show "byy < unat (dim_y G)" by (simp only: of_nat_less_iff)
  qed
  have ty: "int ty = y mod uint (dim_y T)" "ty < unat (dim_y T)"
  proof -
    show a: "int ty = y mod uint (dim_y T)" using T(2) by (simp add: ty_def)
    have "y mod uint (dim_y T) < uint (dim_y T)" using T(2) by simp
    then have "int ty < int (unat (dim_y T))" unfolding a by (simp only: uint_nat)
    then show "ty < unat (dim_y T)" by (simp only: of_nat_less_iff)
  qed
  let ?t = "mk_thread T (z, byy, bx) (0, ty, tx)"
  have "(z, byy, bx) \<in> set (grid_blocks G)" using z bx(2) byy(2) by (simp add: set_grid_blocks)
  moreover have "?t \<in> set (block_threads T (z, byy, bx))"
    unfolding set_block_threads using T(3) tx(2) ty(2) by blast
  ultimately have "?t \<in> set (all_threads G T)" unfolding set_all_threads by blast
  moreover have "blockIdx_z ?t = int z" by simp
  moreover have "global_x ?t = x" by (simp add: global_x_def bx(1) tx(1))
  moreover have "global_y ?t = y" by (simp add: global_y_def byy(1) ty(1))
  ultimately show ?thesis by blast
qed

lemma all_threads_cases:
  assumes "t \<in> set (all_threads G T)"
  obtains bz byy bx tz ty tx where "bz < unat (dim_z G)" "byy < unat (dim_y G)" "bx < unat (dim_x G)"
    "tz < unat (dim_z T)" "ty < unat (dim_y T)" "tx < unat (dim_x T)"
    "t = mk_thread T (bz, byy, bx) (tz, ty, tx)"
proof -
  obtain b where b: "b \<in> set (grid_blocks G)" "t \<in> set (block_threads T b)"
    using assms unfolding set_all_threads by blast
  obtain bz byy bx where bb: "b = (bz, byy, bx)" by (cases b) auto
  obtain tz ty tx where "tz < unat (dim_z T)" "ty < unat (dim_y T)" "tx < unat (dim_x T)"
    "t = mk_thread T (bz, byy, bx) (tz, ty, tx)"
    using b(2) unfolding set_block_threads bb by blast
  moreover have "bz < unat (dim_z G)" "byy < unat (dim_y G)" "bx < unat (dim_x G)"
    using b(1) unfolding bb set_grid_blocks by simp_all
  ultimately show ?thesis by (rule that [rotated 3])
qed

lemma thread_coords_nonneg:
  assumes "t \<in> set (all_threads G T)"
  shows "0 \<le> global_x t" "0 \<le> global_y t" "0 \<le> blockIdx_z t" "nat (blockIdx_z t) < unat (dim_z G)"
proof -
  from assms obtain bz byy bx tz ty tx where "bz < unat (dim_z G)"
    "t = mk_thread T (bz, byy, bx) (tz, ty, tx)"
    by (rule all_threads_cases)
  then show "0 \<le> global_x t" "0 \<le> global_y t" "0 \<le> blockIdx_z t"
      "nat (blockIdx_z t) < unat (dim_z G)"
    by (simp_all add: global_x_def global_y_def)
qed

lemma thread_eq_by_coords:
  assumes t: "t \<in> set (all_threads G T)" and t': "t' \<in> set (all_threads G T)"
    and z1: "unat (dim_z T) = 1"
    and eq: "blockIdx_z t = blockIdx_z t'" "global_x t = global_x t'" "global_y t = global_y t'"
  shows "t = t'"
proof -
  from t obtain bz byy bx tz ty tx where a: "tz < unat (dim_z T)" "ty < unat (dim_y T)"
      "tx < unat (dim_x T)" "t = mk_thread T (bz, byy, bx) (tz, ty, tx)"
    by (rule all_threads_cases)
  from t' obtain bz' byy' bx' tz' ty' tx' where b: "tz' < unat (dim_z T)" "ty' < unat (dim_y T)"
      "tx' < unat (dim_x T)" "t' = mk_thread T (bz', byy', bx') (tz', ty', tx')"
    by (rule all_threads_cases)
  have tz: "tz = tz'" using a(1) b(1) z1 by simp
  have bz: "bz = bz'" using eq(1) by (simp add: a(4) b(4))
  have bdx: "int tx < uint (dim_x T)" "int tx' < uint (dim_x T)"
    and bdy: "int ty < uint (dim_y T)" "int ty' < uint (dim_y T)"
    using a(2,3) b(2,3) by (simp_all only: uint_nat of_nat_less_iff)
  have ex: "int bx * uint (dim_x T) + int tx = int bx' * uint (dim_x T) + int tx'"
    using eq(2) by (simp add: global_x_def a(4) b(4))
  have x: "int bx = int bx'" "int tx = int tx'"
    by (rule int_decomp_unique [OF _ bdx(1) _ bdx(2) ex]; simp)+
  have ey: "int byy * uint (dim_y T) + int ty = int byy' * uint (dim_y T) + int ty'"
    using eq(3) by (simp add: global_y_def a(4) b(4))
  have y: "int byy = int byy'" "int ty = int ty'"
    by (rule int_decomp_unique [OF _ bdy(1) _ bdy(2) ey]; simp)+
  show ?thesis unfolding a(4) b(4) using tz bz x y by simp
qed

lemma pix_addr_inj:
  fixes Z z X x Y y vH vW ostep :: int
  assumes X: "0 \<le> X" "X < vW" and Y: "0 \<le> Y" "Y < vH"
    and x: "0 \<le> x" "x < vW" and y: "0 \<le> y" "y < vH"
    and sep: "Z = z \<or> vW * vH \<le> ostep"
    and eq: "ooff + Z * ostep + (X * vH + Y) = ooff + z * ostep + (x * vH + y)"
  shows "Z = z" "X = x" "Y = y"
proof -
  have bound: "0 \<le> a * vH + b \<and> a * vH + b < vW * vH"
    if "0 \<le> a" "a < vW" "0 \<le> b" "b < vH" for a b :: int
  proof -
    have "(a + 1) * vH \<le> vW * vH" using that by (intro mult_right_mono) simp_all
    moreover have "a * vH + b < (a + 1) * vH" using that by (simp add: algebra_simps)
    moreover have "0 \<le> a * vH" using that by simp
    ultimately show ?thesis using that(3) by linarith
  qed
  note P = bound [OF X Y] and p = bound [OF x y]
  have both: "Z = z \<and> X * vH + Y = x * vH + y"
  proof (cases "Z = z")
    case True
    then show ?thesis using eq by simp
  next
    case False
    then have o: "vW * vH \<le> ostep" using sep by simp
    have "Z * ostep + (X * vH + Y) = z * ostep + (x * vH + y)" using eq by simp
    moreover have "X * vH + Y < ostep" "x * vH + y < ostep" using P p o by simp_all
    ultimately show ?thesis
      using P p by (auto intro: int_decomp_unique [where b = ostep])
  qed
  then show "Z = z" by simp
  from both have "X * vH + Y = x * vH + y" by simp
  then show "X = x" "Y = y"
    using Y y by (auto intro: int_decomp_unique [where b = vH])
qed

lemma acc_launch_additive:
  "acc_launch G T ooff vH vW ostep c out a = out a + acc_launch G T ooff vH vW ostep c (\<lambda>_. 0) a"
  unfolding acc_launch_def pix_launch_def by (rule fold_thread_upd_additive)

lemma pix_launch_frame:
  assumes "\<And>z x y. z < unat (dim_z G) \<Longrightarrow> 0 \<le> x \<Longrightarrow> x < vW \<Longrightarrow> 0 \<le> y \<Longrightarrow> y < vH \<Longrightarrow>
             a \<noteq> ooff + int z * ostep + (x * vH + y)"
  shows "pix_launch G T ooff vH vW ostep g out a = out a"
  unfolding pix_launch_def
proof (rule fold_thread_upd_outside)
  fix t assume t: "t \<in> set (all_threads G T)" and act: "pix_act vH vW t"
  note nn = thread_coords_nonneg [OF t]
  define z where "z = nat (blockIdx_z t)"
  have z: "int z = blockIdx_z t" "z < unat (dim_z G)" using nn(3,4) by (simp_all add: z_def)
  have "a \<noteq> ooff + int z * ostep + (global_x t * vH + global_y t)"
    using z(2) nn(1) _ nn(2) by (rule assms) (use act in \<open>simp_all add: pix_act_def\<close>)
  then show "pix_addr ooff vH ostep t \<noteq> a" unfolding pix_addr_def z(1) by simp
qed

lemma pix_launch_pixel:
  assumes T: "0 < uint (dim_x T)" "0 < uint (dim_y T)" "unat (dim_z T) = 1"
    and z: "z < unat (dim_z G)"
    and x: "0 \<le> x" "x < vW"
    and y: "0 \<le> y" "y < vH"
    and cover: "vW \<le> uint (dim_x G) * uint (dim_x T)" "vH \<le> uint (dim_y G) * uint (dim_y T)"
    and sep: "unat (dim_z G) \<le> 1 \<or> vW * vH \<le> ostep"
  shows "pix_launch G T ooff vH vW ostep g out (ooff + int z * ostep + (x * vH + y))
       = g (int z) x y (out (ooff + int z * ostep + (x * vH + y)))"
proof -
  have Tz: "0 < unat (dim_z T)" using T(3) by simp
  have xc: "x < uint (dim_x G) * uint (dim_x T)" and yc: "y < uint (dim_y G) * uint (dim_y T)"
    using x(2) y(2) cover by simp_all
  obtain t0 where t0: "t0 \<in> set (all_threads G T)" "blockIdx_z t0 = int z" "global_x t0 = x"
      "global_y t0 = y"
    using pixel_thread_exists [OF T(1,2) Tz z x(1) xc y(1) yc] by blast
  have addr0: "pix_addr ooff vH ostep t0 = ooff + int z * ostep + (x * vH + y)"
    by (simp add: pix_addr_def t0)
  have act0: "pix_act vH vW t0" using x y by (simp add: pix_act_def t0)
  have uniq: "t = t0" if t: "t \<in> set (all_threads G T)" and act: "pix_act vH vW t"
    and eq: "pix_addr ooff vH ostep t = pix_addr ooff vH ostep t0" for t
  proof -
    note nn = thread_coords_nonneg [OF t]
    have a: "global_x t < vW" "global_y t < vH" using act by (simp_all add: pix_act_def)
    have s: "blockIdx_z t = int z \<or> vW * vH \<le> ostep"
    proof (cases "unat (dim_z G) \<le> 1")
      case True
      then have "nat (blockIdx_z t) = 0" "z = 0" using nn(4) z by simp_all
      then have "blockIdx_z t = 0" "int z = 0" using nn(3) by simp_all
      then show ?thesis by simp
    next
      case False
      then show ?thesis using sep by simp
    qed
    have e: "ooff + blockIdx_z t * ostep + (global_x t * vH + global_y t)
        = ooff + int z * ostep + (x * vH + y)"
      using eq unfolding addr0 by (simp add: pix_addr_def)
    note inj = pix_addr_inj [OF nn(1) a(1) nn(2) a(2) x y s e]
    show ?thesis using t t0(1) T(3) by (rule thread_eq_by_coords) (simp_all add: inj t0)
  qed
  have "fold (thread_upd (pix_act vH vW) (pix_addr ooff vH ostep)
             (\<lambda>t v. g (blockIdx_z t) (global_x t) (global_y t) v))
       (all_threads G T) out (pix_addr ooff vH ostep t0)
     = g (blockIdx_z t0) (global_x t0) (global_y t0) (out (pix_addr ooff vH ostep t0))"
    using distinct_all_threads t0(1) act0 uniq by (rule fold_thread_upd_at)
  then show ?thesis unfolding pix_launch_def addr0 by (simp add: t0)
qed

lemma acc_launch_frame:
  assumes "\<And>z x y. z < unat (dim_z G) \<Longrightarrow> 0 \<le> x \<Longrightarrow> x < vW \<Longrightarrow> 0 \<le> y \<Longrightarrow> y < vH \<Longrightarrow>
             a \<noteq> ooff + int z * ostep + (x * vH + y)"
  shows "acc_launch G T ooff vH vW ostep c out a = out a"
  unfolding acc_launch_def using assms by (rule pix_launch_frame)

lemma acc_launch_pixel:
  assumes "0 < uint (dim_x T)" "0 < uint (dim_y T)" "unat (dim_z T) = 1"
    and "z < unat (dim_z G)"
    and "0 \<le> x" "x < vW"
    and "0 \<le> y" "y < vH"
    and "vW \<le> uint (dim_x G) * uint (dim_x T)" "vH \<le> uint (dim_y G) * uint (dim_y T)"
    and "unat (dim_z G) \<le> 1 \<or> vW * vH \<le> ostep"
  shows "acc_launch G T ooff vH vW ostep c out (ooff + int z * ostep + (x * vH + y))
       = out (ooff + int z * ostep + (x * vH + y)) + c (int z) x y"
  unfolding acc_launch_def using assms by (rule pix_launch_pixel)

lemma sum_int_rev:
  fixes f :: "int \<Rightarrow> real"
  shows "(\<Sum>j<nat n. f (int j)) = (\<Sum>j<nat n. f (n - 1 - int j))"
proof -
  have "(\<Sum>j<nat n. f (int j)) = (\<Sum>j<nat n. f (int (nat n - Suc j)))"
    by (rule sum.nat_diff_reindex [symmetric])
  also have "\<dots> = (\<Sum>j<nat n. f (n - 1 - int j))"
  proof (rule sum.cong [OF refl])
    fix j assume "j \<in> {..<nat n}"
    then have "int (nat n - Suc j) = n - 1 - int j" by (simp add: of_nat_diff)
    then show "f (int (nat n - Suc j)) = f (n - 1 - int j)" by simp
  qed
  finally show ?thesis .
qed

lemma tile_sum_reindex:
  "tile_sum Kv Dv kH kW xs ys =
     (\<Sum>i<nat kW. \<Sum>j<nat kH. Kv ((kW - 1 - int i) * kH + (kH - 1 - int j))
          * Dv (xs + (kW - 1) - int i) (ys + (kH - 1) - int j))"
proof -
  have "tile_sum Kv Dv kH kW xs ys
      = (\<Sum>i<nat kW. \<Sum>j<nat kH. Kv (int i * kH + (kH - 1 - int j)) * Dv (xs + int i) (ys + (kH - 1 - int j)))"
    unfolding tile_sum_def
    by (rule sum.cong [OF refl])
      (rule sum_int_rev [where f = "\<lambda>j. Kv (_ * kH + j) * Dv _ (ys + j)"])
  also have "\<dots> = (\<Sum>i<nat kW. \<Sum>j<nat kH. Kv ((kW - 1 - int i) * kH + (kH - 1 - int j))
          * Dv (xs + (kW - 1 - int i)) (ys + (kH - 1 - int j)))"
    by (rule sum_int_rev [where f = "\<lambda>i. \<Sum>j<nat kH. Kv (i * kH + (kH - 1 - int j)) * Dv (xs + i) (ys + (kH - 1 - int j))"])
  finally show ?thesis by (simp add: algebra_simps)
qed


lemma flip_index:
  fixes i j kH kW :: int
  shows "kW * kH - 1 - ((kW - 1 - i) * kH + (kH - 1 - j)) = i * kH + j"
  by (simp add: algebra_simps)

lemma valid_shm_val_plain:
  "valid_shm_val False False data H W kern kH kW dstep kstep z x y
     = valid_conv (ptr_add data (z * dstep)) H (ptr_add kern (z * kstep)) kH kW x y"
  unfolding valid_shm_val_def tile_sum_reindex valid_conv_def
  by (simp add: K_at_def D_at_def flip_index)

lemma full_shm_val_plain:
  "full_shm_val False False data H W kern kH kW dstep kstep z x y
     = full_conv (ptr_add data (z * dstep)) H W (ptr_add kern (z * kstep)) kH kW x y"
  unfolding full_shm_val_def tile_sum_reindex full_conv_def
  by (intro sum.cong refl) (simp add: K_at_def D_at0_def D_at_def flip_index)

lemma full_shm_val_rot:
  "full_shm_val False True data H W kern kH kW dstep kstep z x y
     = full_conv (ptr_add data (z * dstep)) H W (rot180 (ptr_add kern (z * kstep)) kH kW) kH kW x y"
  unfolding full_shm_val_def tile_sum_reindex full_conv_def
  by (intro sum.cong refl) (simp add: K_at_def D_at0_def D_at_def rot180_def algebra_simps)

lemma convn_valid_kernel_launch:
  "launch G T (convn_valid_kernel data kern H W kH kW)
     = pix_launch G T 0 (H - kH + 1) (W - kW + 1) 0 (\<lambda>z x y v. valid_conv data H kern kH kW x y)"
proof -
  have "convn_valid_kernel data kern H W kH kW t
      = thread_upd (pix_act (H - kH + 1) (W - kW + 1)) (pix_addr 0 (H - kH + 1) 0)
          (\<lambda>t v. valid_conv data H kern kH kW (global_x t) (global_y t)) t" for t
    by (intro ext)
      (simp add: convn_valid_kernel_def thread_upd_def pix_act_def pix_addr_def Let_def
        global_x_def global_y_def for_int_nested_sum valid_conv_def not_le [symmetric])
  then show ?thesis
    unfolding launch_all_threads pix_launch_def by (intro ext fold_cong refl) simp
qed

lemma convn_full_kernel_launch:
  "launch G T (convn_full_kernel data kern H W kH kW)
     = pix_launch G T 0 (H + kH - 1) (W + kW - 1) 0 (\<lambda>z x y v. full_conv data H W kern kH kW x y)"
proof -
  have body: "(\<lambda>j sum. let ii = x - i; jj = y - j
                          in if ii < 0 \<or> ii \<ge> W \<or> jj < 0 \<or> jj \<ge> H then sum
                             else sum + kern (i * kH + j) * data (ii * H + jj))
      = (\<lambda>j sum. sum + (if x - i < 0 \<or> x - i \<ge> W \<or> y - j < 0 \<or> y - j \<ge> H then 0
                             else kern (i * kH + j) * data ((x - i) * H + (y - j))))" for x y i :: int
    by (intro ext) (simp add: Let_def)
  have "convn_full_kernel data kern H W kH kW t
      = thread_upd (pix_act (H + kH - 1) (W + kW - 1)) (pix_addr 0 (H + kH - 1) 0)
          (\<lambda>t v. full_conv data H W kern kH kW (global_x t) (global_y t)) t" for t
    unfolding convn_full_kernel_def body
    by (intro ext)
      (simp add: thread_upd_def pix_act_def pix_addr_def Let_def
        global_x_def global_y_def for_int_nested_sum full_conv_def not_le [symmetric])
  then show ?thesis
    unfolding launch_all_threads pix_launch_def by (intro ext fold_cong refl) simp
qed

lemma convn_valid_kernel_with_shm_acc:
  assumes "0 < uint (dim_x T)" "0 < uint (dim_y T)" "0 < unat (dim_z T)" "0 < kH" "0 < kW"
    and "vW + kW - 1 \<le> W" "vH + kH - 1 \<le> H"
  shows "convn_valid_kernel_with_shm rd rk G T shm0 ooff vH vW data H W kern kH kW ostep dstep kstep
       = acc_launch G T ooff vH vW ostep (valid_shm_val rd rk data H W kern kH kW dstep kstep)"
  unfolding convn_valid_kernel_with_shm_fold [OF assms] acc_launch_def pix_launch_def ..

lemma convn_full_kernel_with_shm_acc:
  assumes "0 < uint (dim_x T)" "0 < uint (dim_y T)" "0 < unat (dim_z T)" "0 < kH" "0 < kW"
  shows "convn_full_kernel_with_shm rd rk G T shm0 ooff fH fW data H W kern kH kW ostep dstep kstep
       = acc_launch G T ooff fH fW ostep (full_shm_val rd rk data H W kern kH kW dstep kstep)"
  unfolding convn_full_kernel_with_shm_fold [OF assms] acc_launch_def pix_launch_def ..


lemma ptr_add_0 [simp]: "ptr_add p 0 = p"
  by (simp add: ptr_add_def)

lemma ptr_add_ptr_add: "ptr_add (ptr_add p a) b = ptr_add p (a + b)"
  by (simp add: ptr_add_def add.assoc)

lemma direct_valid_pixel:
  assumes c: "covers G T (W - kW + 1) (H - kH + 1)" and z: "unat (dim_z G) = 1"
    and x: "0 \<le> x" "x < W - kW + 1" and y: "0 \<le> y" "y < H - kH + 1"
  shows "launch G T (convn_valid_kernel data kern H W kH kW) out (x * (H - kH + 1) + y)
       = valid_conv data H kern kH kW x y"
proof -
  have "pix_launch G T 0 (H - kH + 1) (W - kW + 1) 0 (\<lambda>z x y v. valid_conv data H kern kH kW x y) out
          (0 + int 0 * 0 + (x * (H - kH + 1) + y))
      = valid_conv data H kern kH kW x y"
    using c z x y unfolding covers_def by (intro pix_launch_pixel) simp_all
  then show ?thesis unfolding convn_valid_kernel_launch by simp
qed

lemma direct_full_pixel:
  assumes c: "covers G T (W + kW - 1) (H + kH - 1)" and z: "unat (dim_z G) = 1"
    and x: "0 \<le> x" "x < W + kW - 1" and y: "0 \<le> y" "y < H + kH - 1"
  shows "launch G T (convn_full_kernel data kern H W kH kW) out (x * (H + kH - 1) + y)
       = full_conv data H W kern kH kW x y"
proof -
  have "pix_launch G T 0 (H + kH - 1) (W + kW - 1) 0 (\<lambda>z x y v. full_conv data H W kern kH kW x y) out
          (0 + int 0 * 0 + (x * (H + kH - 1) + y))
      = full_conv data H W kern kH kW x y"
    using c z x y unfolding covers_def by (intro pix_launch_pixel) simp_all
  then show ?thesis unfolding convn_full_kernel_launch by simp
qed

lemma tiled_valid_pixel:
  assumes c: "covers G T (W - kW + 1) (H - kH + 1)" and z: "unat (dim_z G) = 1"
    and k: "0 < kH" "0 < kW"
    and x: "0 \<le> x" "x < W - kW + 1" and y: "0 \<le> y" "y < H - kH + 1"
  shows "convn_valid_kernel_with_shm False False G T shm0 0 (H - kH + 1) (W - kW + 1)
           data H W kern kH kW 0 0 0 out (x * (H - kH + 1) + y)
       = out (x * (H - kH + 1) + y) + valid_conv data H kern kH kW x y"
proof -
  have T: "0 < uint (dim_x T)" "0 < uint (dim_y T)" "0 < unat (dim_z T)"
    using c by (simp_all add: covers_def)
  have "acc_launch G T 0 (H - kH + 1) (W - kW + 1) 0
          (valid_shm_val False False data H W kern kH kW 0 0) out
          (0 + int 0 * 0 + (x * (H - kH + 1) + y))
      = out (0 + int 0 * 0 + (x * (H - kH + 1) + y))
        + valid_shm_val False False data H W kern kH kW 0 0 (int 0) x y"
    using c z x y unfolding covers_def by (intro acc_launch_pixel) simp_all
  then show ?thesis
    unfolding convn_valid_kernel_with_shm_acc [OF T k, of "W - kW + 1" W "H - kH + 1" H, simplified]
    by (simp add: valid_shm_val_plain)
qed

lemma tiled_full_pixel:
  assumes c: "covers G T (W + kW - 1) (H + kH - 1)" and z: "unat (dim_z G) = 1"
    and k: "0 < kH" "0 < kW"
    and x: "0 \<le> x" "x < W + kW - 1" and y: "0 \<le> y" "y < H + kH - 1"
  shows "convn_full_kernel_with_shm False False G T shm0 0 (H + kH - 1) (W + kW - 1)
           data H W kern kH kW 0 0 0 out (x * (H + kH - 1) + y)
       = out (x * (H + kH - 1) + y) + full_conv data H W kern kH kW x y"
proof -
  have T: "0 < uint (dim_x T)" "0 < uint (dim_y T)" "0 < unat (dim_z T)"
    using c by (simp_all add: covers_def)
  have "acc_launch G T 0 (H + kH - 1) (W + kW - 1) 0
          (full_shm_val False False data H W kern kH kW 0 0) out
          (0 + int 0 * 0 + (x * (H + kH - 1) + y))
      = out (0 + int 0 * 0 + (x * (H + kH - 1) + y))
        + full_shm_val False False data H W kern kH kW 0 0 (int 0) x y"
    using c z x y unfolding covers_def by (intro acc_launch_pixel) simp_all
  then show ?thesis
    unfolding convn_full_kernel_with_shm_acc [OF T k]
    by (simp add: full_shm_val_plain)
qed



lemma upsample_source_general:
  fixes h w H W :: "8 word" and x y :: "16 word"
  assumes s: "0 < s" and h: "uint h = uint H div s" and w: "uint w = uint W div s"
    and hp: "0 < uint h" and wp: "0 < uint w"
    and x: "uint x < uint H" and y: "uint y < uint W"
  shows "upsample_source h w H x y
       = (word_of_int (min (uint y div (uint H div uint h)) (uint w - 1)),
          word_of_int (min (uint x div (uint H div uint h)) (uint h - 1)))"
    and "uint (fst (upsample_source h w H x y)) = min (uint y div (uint H div uint h)) (uint w - 1)"
    and "uint (snd (upsample_source h w H x y)) = min (uint x div (uint H div uint h)) (uint h - 1)"
    and "s \<le> uint H div uint h"
proof -
  define c where "c = uint H div uint h"
  have H255: "uint H < 256" "uint W < 256" "uint h < 256" "uint w < 256"
    using uint_lt2p [of H] uint_lt2p [of W] uint_lt2p [of h] uint_lt2p [of w] by simp_all
  have "uint H div s * s + uint H mod s = uint H" by simp
  moreover have "0 \<le> uint H mod s" using s by simp
  ultimately have hs: "uint h * s \<le> uint H" unfolding h by linarith
  have "s = (uint h * s) div uint h" using hp by simp
  also have "\<dots> \<le> uint H div uint h" using hs hp by (intro zdiv_mono1) simp_all
  finally have sc: "s \<le> c" unfolding c_def .
  show "s \<le> uint H div uint h" using sc by (simp add: c_def)
  have cpos: "0 < c" using sc s by simp
  have "uint H div uint h \<le> uint H div 1"
    using hp by (intro zdiv_mono2) simp_all
  hence c255: "c < 256" unfolding c_def using H255 by simp
  have ucw: "uint (word_of_int c :: 8 word) = c"
    using cpos c255 by (simp add: uint_word_of_int)
  have xs: "uint x div c \<le> uint h"
  proof -
    have "uint x div c \<le> uint x div s" using sc s by (simp add: zdiv_mono2)
    also have "\<dots> \<le> uint H div s" using x s by (simp add: zdiv_mono1)
    finally show ?thesis by (simp add: h)
  qed
  have ys: "uint y div c \<le> uint w"
  proof -
    have "uint y div c \<le> uint y div s" using sc s by (simp add: zdiv_mono2)
    also have "\<dots> \<le> uint W div s" using y s by (simp add: zdiv_mono1)
    finally show ?thesis by (simp add: w)
  qed
  have x0: "0 \<le> uint x div c" and y0: "0 \<le> uint y div c"
    using cpos by (simp_all add: pos_imp_zdiv_nonneg_iff)
  have ux: "uint (word_of_int (uint x div c) :: 8 word) = uint x div c"
    using x0 xs H255 by (simp add: uint_word_of_int)
  have uy: "uint (word_of_int (uint y div c) :: 8 word) = uint y div c"
    using y0 ys H255 by (simp add: uint_word_of_int)
  define a where "a = uint x div c"
  define b where "b = uint y div c"
  have eqx: "(word_of_int a :: 8 word) = h \<longleftrightarrow> a = uint h"
  proof
    assume "(word_of_int a :: 8 word) = h"
    hence "uint (word_of_int a :: 8 word) = uint h" by (rule arg_cong)
    thus "a = uint h" unfolding a_def ux .
  next
    assume "a = uint h"
    thus "(word_of_int a :: 8 word) = h" by simp
  qed
  have eqy: "(word_of_int b :: 8 word) = w \<longleftrightarrow> b = uint w"
  proof
    assume "(word_of_int b :: 8 word) = w"
    hence "uint (word_of_int b :: 8 word) = uint w" by (rule arg_cong)
    thus "b = uint w" unfolding b_def uy .
  next
    assume "b = uint w"
    thus "(word_of_int b :: 8 word) = w" by simp
  qed
  have unf: "upsample_source h w H x y
      = (if (word_of_int b :: 8 word) = w then word_of_int b - 1 else word_of_int b,
         if (word_of_int a :: 8 word) = h then word_of_int a - 1 else word_of_int a)"
    unfolding upsample_source_def Let_def c_def [symmetric] ucw a_def [symmetric] b_def [symmetric]
    by (rule refl)
  have sx: "(if (word_of_int a :: 8 word) = h then word_of_int a - 1 else word_of_int a)
       = (word_of_int (min a (uint h - 1)) :: 8 word)"
  proof (cases "a = uint h")
    case True
    have "(word_of_int a :: 8 word) - 1 = word_of_int (a - 1)" by simp
    thus ?thesis using True eqx by (simp only: min_def) simp
  next
    case False
    hence "a \<le> uint h - 1" using xs unfolding a_def by simp
    thus ?thesis using False eqx by (simp only: min_def if_True if_False)
  qed
  have sy: "(if (word_of_int b :: 8 word) = w then word_of_int b - 1 else word_of_int b)
       = (word_of_int (min b (uint w - 1)) :: 8 word)"
  proof (cases "b = uint w")
    case True
    have "(word_of_int b :: 8 word) - 1 = word_of_int (b - 1)" by simp
    thus ?thesis using True eqy by (simp only: min_def) simp
  next
    case False
    hence "b \<le> uint w - 1" using ys unfolding b_def by simp
    thus ?thesis using False eqy by (simp only: min_def if_True if_False)
  qed
  show main: "upsample_source h w H x y
       = (word_of_int (min (uint y div (uint H div uint h)) (uint w - 1)),
          word_of_int (min (uint x div (uint H div uint h)) (uint h - 1)))"
    unfolding unf sx sy unfolding a_def b_def c_def by (rule refl)
  have mx: "0 \<le> min a (uint h - 1)" "min a (uint h - 1) < 256"
    using x0 hp H255 unfolding a_def by simp_all
  have my: "0 \<le> min b (uint w - 1)" "min b (uint w - 1) < 256"
    using y0 wp H255 unfolding b_def by simp_all
  have "uint (word_of_int (min b (uint w - 1)) :: 8 word) = min b (uint w - 1)"
    using my by (simp add: uint_word_of_int)
  thus "uint (fst (upsample_source h w H x y)) = min (uint y div (uint H div uint h)) (uint w - 1)"
    unfolding main fst_conv unfolding a_def b_def c_def .
  have "uint (word_of_int (min a (uint h - 1)) :: 8 word) = min a (uint h - 1)"
    using mx by (simp add: uint_word_of_int)
  thus "uint (snd (upsample_source h w H x y)) = min (uint x div (uint H div uint h)) (uint h - 1)"
    unfolding main snd_conv unfolding a_def b_def c_def .
qed

lemma upsample_kernel_thread:
  "upsample_kernel dst src h w H W t out
   = (let x = (word_of_int (global_x t) :: 16 word); y = (word_of_int (global_y t) :: 16 word)
      in if uint y \<ge> uint W \<or> uint x \<ge> uint H then out
         else out(dst + blockIdx_z t * uint H * uint W + (uint y * uint H + uint x)
                  := src (blockIdx_z t * uint h * uint w
                          + (uint (fst (upsample_source h w H x y)) * uint h
                             + uint (snd (upsample_source h w H x y))))))"
  by (simp add: upsample_kernel_def Let_def global_x_def global_y_def ptr_add_def
      split: prod.split)

lemma pooled_address_bound:
  fixes a b h w :: int
  assumes "0 \<le> a" "a \<le> w - 1" "0 \<le> b" "b \<le> h - 1" "0 < h"
  shows "0 \<le> a * h + b" "a * h + b < h * w"
proof -
  show "0 \<le> a * h + b" using assms by simp
  have "a * h \<le> (w - 1) * h" using assms by (intro mult_right_mono) simp_all
  hence "a * h + b \<le> (w - 1) * h + (h - 1)" using assms by linarith
  also have "\<dots> < h * w" by (simp add: algebra_simps)
  finally show "a * h + b < h * w" .
qed

lemma getSuitableShmConfig_while_dim_z:
  "getSuitableShmConfig_while grids threads kH kW = (g', t') \<Longrightarrow>
     dim_z g' = dim_z grids \<and> dim_z t' = dim_z threads"
proof (induction grids threads kH kW rule: getSuitableShmConfig_while.induct)
  case (1 grids threads kH kW)
  then show ?case
    by (subst (asm) (3) getSuitableShmConfig_while.simps) (auto split: if_splits)
qed

lemma getSuitableShmConfig_dim_z:
  "getSuitableShmConfig grids threads kH kW = Inr (g', t', sz) \<Longrightarrow>
     dim_z g' = dim_z grids \<and> dim_z t' = dim_z threads"
  using getSuitableShmConfig_while_dim_z
  by (fastforce simp: getSuitableShmConfig_def split: prod.splits if_splits)

lemma fold_acc_sum:
  assumes "\<And>k s. k \<in> set ks \<Longrightarrow> f k s a = s a + d k"
  shows "fold f ks s a = s a + sum_list (map d ks)"
  using assms
proof (induction ks arbitrary: s)
  case Nil
  then show ?case by simp
next
  case (Cons k ks)
  have "fold f ks (f k s) a = f k s a + sum_list (map d ks)"
    by (rule Cons.IH) (simp add: Cons.prems)
  then show ?case by (simp add: Cons.prems add.assoc)
qed

lemma fold_acc_sum_upt:
  assumes "\<And>k s. k < n \<Longrightarrow> f k s a = s a + d k"
  shows "fold f [0..<n] s a = s a + (\<Sum>k<n. d k)"
proof -
  have "fold f [0..<n] s a = s a + sum_list (map d [0..<n])"
    by (rule fold_acc_sum) (simp add: assms)
  also have "sum_list (map d [0..<n]) = (\<Sum>k<n. d k)"
    by (simp add: interv_sum_list_conv_sum_set_nat atLeast0LessThan)
  finally show ?thesis .
qed

lemma fold_same_value:
  assumes F: "\<And>k b. F k b = b(f k := g k)"
    and ex: "\<exists>k\<in>set ks. f k = q" and same: "\<And>k. k \<in> set ks \<Longrightarrow> f k = q \<Longrightarrow> g k = v"
  shows "fold F ks (b::buf) q = v"
  using ex same
proof (induction ks arbitrary: b rule: rev_induct)
  case Nil
  then show ?case by simp
next
  case (snoc k ks)
  have step: "fold F (ks @ [k]) b q = (if f k = q then g k else fold F ks b q)"
    by (simp add: F)
  show ?case
  proof (cases "f k = q")
    case True
    then show ?thesis unfolding step using snoc.prems(2) [of k] by simp
  next
    case False
    have "fold F ks b q = v"
    proof (rule snoc.IH)
      show "\<exists>k\<in>set ks. f k = q" using snoc.prems(1) False by auto
      show "\<And>k. k \<in> set ks \<Longrightarrow> f k = q \<Longrightarrow> g k = v" using snoc.prems(2) by simp
    qed
    then show ?thesis unfolding step using False by simp
  qed
qed


lemma region_offset_unique:
  fixes j j' p p' A :: int
  assumes "0 \<le> p" "p < A" "0 \<le> p'" "p' < A" "j * A + p = j' * A + p'"
  shows "j = j'" "p = p'"
  using int_decomp_unique [OF assms] by simp_all

lemma region_offset_bound:
  fixes j n p A :: int
  assumes "0 \<le> j" "j < n" "0 \<le> p" "p < A"
  shows "0 \<le> j * A + p" "j * A + p < n * A"
proof -
  have A: "0 < A" using assms by simp
  show "0 \<le> j * A + p" using assms A by simp
  have "(j + 1) * A \<le> n * A" using assms A by (intro mult_right_mono) simp_all
  moreover have "j * A + p < (j + 1) * A" using assms by (simp add: algebra_simps)
  ultimately show "j * A + p < n * A" by simp
qed

lemma bias_vec_value:
  fixes p :: int
  assumes j: "j < n" and p: "0 \<le> p" "p < int m"
  shows "fold (\<lambda>j. fold (\<lambda>a b. b(int j * int m + int a := bv j)) [0..<m]) [0..<n] (h0 :: buf)
           (int j * int m + p) = bv j"
proof -
  define f where "f = (\<lambda>(j, a). int j * int m + int a)"
  define g where "g = (\<lambda>(j :: nat, a :: nat). bv j)"
  define ks where "ks = concat (map (\<lambda>j. map (Pair j) [0..<m]) [0..<n])"
  have inner: "fold (\<lambda>a b. b(int j * int m + int a := bv j)) [0..<m]
      = fold (\<lambda>k (b::buf). b(f k := g k)) (map (Pair j) [0..<m])" for j
    by (simp add: fold_map comp_def f_def g_def)
  have flat: "fold (\<lambda>j. fold (\<lambda>a b. b(int j * int m + int a := bv j)) [0..<m]) [0..<n]
      = fold (\<lambda>k (b::buf). b(f k := g k)) ks"
    unfolding inner ks_def by (rule fold_fold_concat)
  have "fold (\<lambda>k (b::buf). b(f k := g k)) ks h0 (int j * int m + p) = bv j"
  proof (rule fold_same_value)
    show "\<And>k b. b(f k := g k) = b(f k := g k)" by (rule refl)
  next
    have "nat p < m" using p by simp
    hence "(j, nat p) \<in> set ks" using j by (auto simp: ks_def image_iff)
    moreover have "f (j, nat p) = int j * int m + p" using p by (simp add: f_def)
    ultimately show "\<exists>k\<in>set ks. f k = int j * int m + p" by (intro bexI)
  next
    fix k assume k: "k \<in> set ks" and e: "f k = int j * int m + p"
    obtain j' a where ka: "k = (j', a)" by (cases k)
    have a: "int a < int m" using k by (auto simp: ks_def ka)
    have a0: "0 \<le> int a" by simp
    have e': "int j' * int m + int a = int j * int m + p" using e by (simp add: f_def ka)
    have "int j' = int j" by (rule region_offset_unique(1) [OF a0 a p e'])
    thus "g k = bv j" by (simp add: g_def ka)
  qed
  thus ?thesis unfolding flat .
qed


lemma fold_frame:
  assumes "\<And>k s. k \<in> set ks \<Longrightarrow> f k s a = s a"
  shows "fold f ks s a = s a"
  using assms by (induction ks arbitrary: s) simp_all

lemma acc_launch_region:
  fixes R :: int
  assumes T: "0 < uint (dim_x T)" "0 < uint (dim_y T)" "unat (dim_z T) = 1"
    and cover: "vW \<le> uint (dim_x G) * uint (dim_x T)" "vH \<le> uint (dim_y G) * uint (dim_y T)"
    and z: "z < unat (dim_z G)"
    and x: "0 \<le> x" "x < vW" and y: "0 \<le> y" "y < vH"
    and j: "j < n" "j0 < n" and R: "int n * (vH * vW) \<le> R"
  shows "acc_launch G T (int j * (vH * vW)) vH vW R c out
           (int j0 * (vH * vW) + int z * R + (x * vH + y))
       = out (int j0 * (vH * vW) + int z * R + (x * vH + y))
         + (if j = j0 then c (int z) x y else 0)"
proof -
  define A where "A = vH * vW"
  have pb: "0 \<le> x' * vH + y' \<and> x' * vH + y' < A"
    if "0 \<le> x'" "x' < vW" "0 \<le> y'" "y' < vH" for x' y'
    using pooled_address_bound [of x' vW y' vH] that unfolding A_def by simp
  have Apos: "0 < A" using pb [OF x y] by simp
  have rb: "0 \<le> int j' * A + p \<and> int j' * A + p < R" if "j' < n" "0 \<le> p" "p < A" for j' p
  proof -
    have "int j' * A + p < int n * A"
      by (rule region_offset_bound(2) [of "int j'" "int n" p A]) (use that in simp_all)
    moreover have "0 \<le> int j' * A + p"
      by (rule region_offset_bound(1) [of "int j'" "int n" p A]) (use that in simp_all)
    ultimately show ?thesis using R unfolding A_def by simp
  qed
  show ?thesis
  proof (cases "j = j0")
    case True
    have "A \<le> int n * A" using j Apos by simp
    hence sep: "unat (dim_z G) \<le> 1 \<or> vW * vH \<le> R" using R unfolding A_def by (simp add: mult.commute)
    show ?thesis unfolding True
      using acc_launch_pixel [OF T z x y cover sep, of "int j0 * (vH * vW)" c out] by simp
  next
    case False
    have "acc_launch G T (int j * (vH * vW)) vH vW R c out
           (int j0 * (vH * vW) + int z * R + (x * vH + y))
        = out (int j0 * (vH * vW) + int z * R + (x * vH + y))"
    proof (rule acc_launch_frame)
      fix z' :: nat and x' y' :: int
      assume r: "0 \<le> x'" "x' < vW" "0 \<le> y'" "y' < vH"
      show "int j0 * (vH * vW) + int z * R + (x * vH + y)
          \<noteq> int j * (vH * vW) + int z' * R + (x' * vH + y')"
      proof
        assume e: "int j0 * (vH * vW) + int z * R + (x * vH + y)
          = int j * (vH * vW) + int z' * R + (x' * vH + y')"
        note p = pb [OF x y] and p' = pb [OF r]
        note b = rb [OF j(2) p [THEN conjunct1] p [THEN conjunct2]]
          and b' = rb [OF j(1) p' [THEN conjunct1] p' [THEN conjunct2]]
        have "int z * R + (int j0 * A + (x * vH + y)) = int z' * R + (int j * A + (x' * vH + y'))"
          using e unfolding A_def by simp
        hence "int j0 * A + (x * vH + y) = int j * A + (x' * vH + y')"
          by (rule int_decomp_unique(2) [OF b [THEN conjunct1] b [THEN conjunct2]
                b' [THEN conjunct1] b' [THEN conjunct2]])
        hence "int j0 = int j"
          by (rule region_offset_unique(1) [OF p [THEN conjunct1] p [THEN conjunct2]
                p' [THEN conjunct1] p' [THEN conjunct2]])
        thus False using False by simp
      qed
    qed
    thus ?thesis using False by simp
  qed
qed

lemma nested_acc_launch_pixel:
  fixes R :: int
  assumes T: "0 < uint (dim_x T)" "0 < uint (dim_y T)" "unat (dim_z T) = 1"
    and cover: "vW \<le> uint (dim_x G) * uint (dim_x T)" "vH \<le> uint (dim_y G) * uint (dim_y T)"
    and z: "z < unat (dim_z G)"
    and x: "0 \<le> x" "x < vW" and y: "0 \<le> y" "y < vH"
    and j: "j0 < n" and R: "int n * (vH * vW) \<le> R"
  shows "fold (\<lambda>j. fold (\<lambda>i. acc_launch G T (int j * (vH * vW)) vH vW R (c j i)) [0..<m]) [0..<n] s
           (int j0 * (vH * vW) + int z * R + (x * vH + y))
       = s (int j0 * (vH * vW) + int z * R + (x * vH + y)) + (\<Sum>i<m. c j0 i (int z) x y)"
proof -
  define a where "a = int j0 * (vH * vW) + int z * R + (x * vH + y)"
  have inner: "fold (\<lambda>i. acc_launch G T (int j * (vH * vW)) vH vW R (c j i)) [0..<m] s' a
      = s' a + (\<Sum>i<m. if j = j0 then c j i (int z) x y else 0)" if "j < n" for j s'
    unfolding a_def
    by (rule fold_acc_sum_upt) (rule acc_launch_region [OF T cover z x y that j R])
  have "fold (\<lambda>j. fold (\<lambda>i. acc_launch G T (int j * (vH * vW)) vH vW R (c j i)) [0..<m]) [0..<n] s a
      = s a + (\<Sum>j<n. \<Sum>i<m. if j = j0 then c j i (int z) x y else 0)"
    by (rule fold_acc_sum_upt) (rule inner)
  also have "(\<Sum>j<n. \<Sum>i<m. if j = j0 then c j i (int z) x y else 0)
      = (\<Sum>j<n. if j = j0 then (\<Sum>i<m. c j0 i (int z) x y) else 0)"
    by (intro sum.cong refl) simp
  also have "\<dots> = (\<Sum>i<m. c j0 i (int z) x y)"
    using j by (simp add: sum.delta)
  finally show ?thesis unfolding a_def .
qed


lemma mat_mult_bias_ones:
  "getData (mat_mult \<lparr>getRows = R, getCols = 1, getData = bv\<rparr>
                     \<lparr>getRows = 1, getCols = n, getData = (\<lambda>a. 1)\<rparr>) a = bv (a mod int R)"
  by (simp add: mat_mult_def Let_def)


lemma to_size_t_id: "0 \<le> i \<Longrightarrow> i < 2 ^ 64 \<Longrightarrow> int (to_size_t i) = i"
  by (simp add: to_size_t_def)

lemma to_int_id: "n < 2 ^ 31 \<Longrightarrow> to_int n = int n"
  unfolding to_int_def by simp

lemma product_bound:
  fixes n R :: int
  assumes "n * R < B" "0 < n" "0 \<le> R"
  shows "R < B"
proof -
  have "1 * R \<le> n * R" using assms by (intro mult_right_mono) simp_all
  thus ?thesis using assms by simp
qed

lemma product_bound':
  fixes n R :: int
  assumes "n * R < B" "0 \<le> n" "0 < R"
  shows "n < B"
proof -
  have "n * 1 \<le> n * R" using assms by (intro mult_left_mono) simp_all
  thus ?thesis using assms by simp
qed

lemma ConvolutionalLayer_feedForward_acc:
  fixes H W kH kW vH vW :: int
  assumes sizes: "get_input_img_size L = \<lparr>sz_m = H, sz_n = W\<rparr>"
      "get_kernel_size L = \<lparr>sz_m = kH, sz_n = kW\<rparr>"
    and v: "vH = H - kH + 1" "vW = W - kW + 1" "0 < vH" "0 < vW"
    and al: "alloc vW vH = (G, T)"
    and cfg: "getSuitableShmConfig (G\<lparr>dim_z := of_nat (getCols fin)\<rparr>) T kH kW = Inr (G', T', sz)"
    and Tc: "0 < uint (dim_x T')" "0 < uint (dim_y T')" "0 < unat (dim_z T')"
    and nO: "0 < getNumOutputMaps L"
    and rows: "vH * vW * int (getNumOutputMaps L) + 1 < 2 ^ 31"
    and fr: "getRows fin < 2 ^ 31"
    and k: "0 < kH" "0 < kW"
  shows "ConvolutionalLayer_feedForward alloc shm0 hmat0 L fin
      = Inr \<lparr>getRows = nat (vH * vW * int (getNumOutputMaps L) + 1), getCols = getCols fin,
             getData = fold (\<lambda>j. fold (\<lambda>i. acc_launch G' T' (int j * (vH * vW)) vH vW
                   (vH * vW * int (getNumOutputMaps L) + 1)
                   (valid_shm_val False False (ptr_add (getData fin) (int i * (H * W)))
                      H W (kernels L i j) kH kW (int (getRows fin)) 0))
                 [0..<getNumInputMaps L]) [0..<getNumOutputMaps L]
               (\<lambda>a. fold (\<lambda>j. fold (\<lambda>a b. b(int j * int (nat (vH * vW)) + int a := bias L j))
                                 [0..<nat (vH * vW)])
                      [0..<getNumOutputMaps L] hmat0
                      (a mod (vH * vW * int (getNumOutputMaps L) + 1)))\<rparr>"
proof -
  define nO where "nO = getNumOutputMaps L"
  define nI where "nI = getNumInputMaps L"
  define R where "R = vH * vW * int nO + 1"
  define m where "m = nat (vH * vW)"
  have Apos: "0 < vH * vW" using v by simp
  have "vH * vW * 1 \<le> vH * vW * int nO" using Apos nO by (intro mult_left_mono) (simp_all add: nO_def)
  hence AR: "vH * vW < R" unfolding R_def by simp
  have R31: "R < 2 ^ 31" using rows by (simp add: R_def nO_def)
  hence R64: "R < 2 ^ 64" by simp
  have Rpos: "0 < R" using AR Apos by simp
  have tiR: "to_int (nat R) = R" using Rpos R31 by (simp add: to_int_id)
  have tif: "to_int (getRows fin) = int (getRows fin)" using fr by (rule to_int_id)
  have m: "int m = vH * vW" unfolding m_def using Apos by simp
  have tm: "to_size_t (vH * vW) = m" unfolding m_def to_size_t_def using Apos AR R64 by simp
  have tR: "to_size_t R = nat R" unfolding to_size_t_def using Rpos R64 by simp
  have iR: "int (nat R) = R" using Rpos by simp
  have out: "get_output_img_size L = \<lparr>sz_m = vH, sz_n = vW\<rparr>"
    by (simp add: get_output_img_size_def SIZE_add_scalar_def SIZE_sub_def sizes v)
  have areas: "area \<lparr>sz_m = vH, sz_n = vW\<rparr> = vH * vW" "area \<lparr>sz_m = H, sz_n = W\<rparr> = H * W"
    by (simp_all add: area_def)
  have Rf: "vH * vW * int nO + 1 = R" by (simp add: R_def)
  have launch_eq: "convn_valid_kernel_with_shm False False G' T' (shm0 j i)
        (int j * (vH * vW)) vH vW (ptr_add (getData fin) (int i * (H * W))) H W
        (kernels L i j) kH kW R (int (getRows fin)) 0
      = acc_launch G' T' (int j * (vH * vW)) vH vW R
          (valid_shm_val False False (ptr_add (getData fin) (int i * (H * W)))
             H W (kernels L i j) kH kW (int (getRows fin)) 0)" for j i
    by (rule convn_valid_kernel_with_shm_acc [OF Tc k]) (simp_all add: v)
  show ?thesis
    unfolding ConvolutionalLayer_feedForward_def Let_def out sizes areas
      nO_def [symmetric] nI_def [symmetric] Rf tm tR
    using Rpos Apos by (simp add: al cfg mat_mult_def Let_def tiR tif launch_eq m_def)
qed

lemma ConvolutionalLayer_feedForward_pixel:
  fixes H W kH kW x y :: int
  assumes sizes: "get_input_img_size L = \<lparr>sz_m = H, sz_n = W\<rparr>"
      "get_kernel_size L = \<lparr>sz_m = kH, sz_n = kW\<rparr>"
    and al: "alloc (W - kW + 1) (H - kH + 1) = (G, T)"
    and cfg: "getSuitableShmConfig (G\<lparr>dim_z := of_nat (getCols fin)\<rparr>) T kH kW = Inr (G', T', sz)"
    and cov: "covers G' T' (W - kW + 1) (H - kH + 1)"
    and ob: "int (getCols fin) * ((H - kH + 1) * (W - kW + 1) * int (getNumOutputMaps L) + 1)
               < 2 ^ 31"
    and ib: "int (getCols fin) * int (getRows fin) < 2 ^ 31"
    and k: "0 < kH" "0 < kW"
    and b: "b < getCols fin" and j: "j < getNumOutputMaps L"
    and x: "0 \<le> x" "x < W - kW + 1" and y: "0 \<le> y" "y < H - kH + 1"
  shows "\<exists>fout. ConvolutionalLayer_feedForward alloc shm0 hmat0 L fin = Inr fout
          \<and> int (getRows fout) = (H - kH + 1) * (W - kW + 1) * int (getNumOutputMaps L) + 1
          \<and> getCols fout = getCols fin
          \<and> getData fout (int j * ((H - kH + 1) * (W - kW + 1)) + int b * int (getRows fout)
                           + (x * (H - kH + 1) + y))
            = bias L j + (\<Sum>i<getNumInputMaps L.
                 valid_conv (ptr_add (getData fin) (int i * (H * W) + int b * int (getRows fin)))
                   H (kernels L i j) kH kW x y)"
proof -
  define vH where "vH = H - kH + 1"
  define vW where "vW = W - kW + 1"
  define nO where "nO = getNumOutputMaps L"
  define nI where "nI = getNumInputMaps L"
  define R where "R = vH * vW * int nO + 1"
  define m where "m = nat (vH * vW)"
  have vpos: "0 < vH" "0 < vW" using x y by (simp_all add: vH_def vW_def)
  hence Apos: "0 < vH * vW" by simp
  have nOpos: "0 < nO" using j by (simp add: nO_def)
  have "0 \<le> vH * vW * int nO" using Apos by simp
  hence Rpos: "0 < R" unfolding R_def by simp
  have m: "int m = vH * vW" unfolding m_def using Apos by simp
  have bpos: "0 < int (getCols fin)" using b by simp
  have rows: "(H - kH + 1) * (W - kW + 1) * int (getNumOutputMaps L) + 1 < 2 ^ 31"
    using ob bpos by (rule product_bound) (use Rpos in \<open>simp add: R_def vH_def vW_def nO_def\<close>)
  have "int (getRows fin) < 2 ^ 31" using ib bpos by (rule product_bound) simp
  hence fr: "getRows fin < 2 ^ 31" by simp
  have "int (getCols fin) < 2 ^ 31"
    using ob by (rule product_bound') (use Rpos in \<open>simp_all add: R_def vH_def vW_def nO_def\<close>)
  hence batch: "getCols fin < 2 ^ 32" by simp
  have Tc: "0 < uint (dim_x T')" "0 < uint (dim_y T')" "unat (dim_z T') = 1"
    and Gc: "vW \<le> uint (dim_x G') * uint (dim_x T')" "vH \<le> uint (dim_y G') * uint (dim_y T')"
    using cov unfolding covers_def vH_def vW_def by simp_all
  have Tz: "0 < unat (dim_z T')" using Tc(3) by simp
  note dz = getSuitableShmConfig_dim_z [OF cfg]
  have Gz: "unat (dim_z G') = getCols fin"
    using dz batch by (simp add: unat_of_nat)
  have zb: "b < unat (dim_z G')" using b Gz by simp
  define c where "c = (\<lambda>j i. valid_shm_val False False (ptr_add (getData fin) (int i * (H * W)))
      H W (kernels L i j) kH kW (int (getRows fin)) 0)"
  define seed where "seed = fold (\<lambda>j. fold (\<lambda>a b. b(int j * int m + int a := bias L j)) [0..<m])
      [0..<nO] hmat0"
  have ff: "ConvolutionalLayer_feedForward alloc shm0 hmat0 L fin
      = Inr \<lparr>getRows = nat R, getCols = getCols fin,
             getData = fold (\<lambda>j. fold (\<lambda>i. acc_launch G' T' (int j * (vH * vW)) vH vW R (c j i))
                                 [0..<nI]) [0..<nO] (\<lambda>a. seed (a mod R))\<rparr>"
    unfolding R_def c_def seed_def m_def nO_def nI_def
    by (rule ConvolutionalLayer_feedForward_acc [OF sizes vH_def vW_def vpos _ cfg Tc(1,2) Tz _ _ fr k])
       (use al rows nOpos in \<open>simp_all add: vH_def vW_def nO_def\<close>)
  define a where "a = int j * (vH * vW) + int b * R + (x * vH + y)"
  have px: "0 \<le> x * vH + y" "x * vH + y < vH * vW"
    using pooled_address_bound [of x vW y vH] x y vpos by (simp_all add: vH_def vW_def)
  have r0: "0 \<le> int j * (vH * vW) + (x * vH + y)"
    by (rule region_offset_bound(1) [of "int j" "int nO" _ "vH * vW"]) (use j px in \<open>simp_all add: nO_def\<close>)
  have "int j * (vH * vW) + (x * vH + y) < int nO * (vH * vW)"
    by (rule region_offset_bound(2) [of "int j" "int nO" _ "vH * vW"]) (use j px in \<open>simp_all add: nO_def\<close>)
  hence r1: "int j * (vH * vW) + (x * vH + y) < R" unfolding R_def by (simp add: mult.commute)
  have "a = int b * R + (int j * (vH * vW) + (x * vH + y))" by (simp add: a_def)
  hence amod: "a mod R = int j * (vH * vW) + (x * vH + y)"
    using int_divmod_decomp(2) [OF r0 r1, of "int b"] by simp
  have seedv: "seed (int j * (vH * vW) + (x * vH + y)) = bias L j"
    unfolding seed_def m [symmetric]
    by (rule bias_vec_value) (use j px m in \<open>simp_all add: nO_def\<close>)
  have RR: "int nO * (vH * vW) \<le> R" unfolding R_def by (simp add: mult.commute)
  have "fold (\<lambda>j. fold (\<lambda>i. acc_launch G' T' (int j * (vH * vW)) vH vW R (c j i)) [0..<nI]) [0..<nO]
          (\<lambda>a. seed (a mod R)) a
      = seed (a mod R) + (\<Sum>i<nI. c j i (int b) x y)"
    unfolding a_def
    by (rule nested_acc_launch_pixel [OF Tc Gc zb _ _ _ _ _ RR])
       (use x y j in \<open>simp_all add: vH_def vW_def nO_def\<close>)
  also have "\<dots> = bias L j + (\<Sum>i<nI. c j i (int b) x y)" unfolding amod seedv ..
  also have "(\<Sum>i<nI. c j i (int b) x y)
      = (\<Sum>i<nI. valid_conv (ptr_add (getData fin) (int i * (H * W) + int b * int (getRows fin)))
                   H (kernels L i j) kH kW x y)"
    unfolding c_def valid_shm_val_plain ptr_add_ptr_add by simp
  finally have val: "fold (\<lambda>j. fold (\<lambda>i. acc_launch G' T' (int j * (vH * vW)) vH vW R (c j i)) [0..<nI])
          [0..<nO] (\<lambda>a. seed (a mod R)) a
      = bias L j + (\<Sum>i<nI. valid_conv (ptr_add (getData fin) (int i * (H * W) + int b * int (getRows fin)))
                   H (kernels L i j) kH kW x y)" .
  show ?thesis
    unfolding ff
    using val Rpos
    by (simp add: a_def R_def vH_def vW_def nO_def nI_def)
qed


lemma ConvolutionalLayer_feedBackward_acc:
  fixes H W kH kW :: int
  assumes sizes: "get_input_img_size L = \<lparr>sz_m = H, sz_n = W\<rparr>"
      "get_kernel_size L = \<lparr>sz_m = kH, sz_n = kW\<rparr>"
    and hw: "0 < H" "0 < W"
    and al: "alloc W H = (G, T)"
    and cfg: "getSuitableShmConfig (G\<lparr>dim_z := of_nat (getCols delta)\<rparr>) T kH kW = Inr (G', T', sz)"
    and Tc: "0 < uint (dim_x T')" "0 < uint (dim_y T')" "0 < unat (dim_z T')"
    and rows: "H * W * int (getNumInputMaps L) + 1 < 2 ^ 31"
    and dr: "getRows delta < 2 ^ 31"
    and k: "0 < kH" "0 < kW"
  shows "ConvolutionalLayer_feedBackward alloc shm0 L delta
      = Inr \<lparr>getRows = nat (H * W * int (getNumInputMaps L) + 1), getCols = getCols delta,
             getData = fold (\<lambda>i. fold (\<lambda>j. acc_launch G' T' (int i * (H * W)) H W
                   (H * W * int (getNumInputMaps L) + 1)
                   (full_shm_val False True
                      (ptr_add (getData delta) (int j * ((H - kH + 1) * (W - kW + 1))))
                      (H - kH + 1) (W - kW + 1) (kernels L i j) kH kW (int (getRows delta)) 0))
                 [0..<getNumOutputMaps L]) [0..<getNumInputMaps L] (\<lambda>a. 0)\<rparr>"
proof -
  define nO where "nO = getNumOutputMaps L"
  define nI where "nI = getNumInputMaps L"
  define R where "R = H * W * int nI + 1"
  have Apos: "0 < H * W" using hw by simp
  have "0 \<le> H * W * int nI" using Apos by simp
  hence Rpos: "0 < R" unfolding R_def by simp
  have R31: "R < 2 ^ 31" using rows by (simp add: R_def nI_def)
  hence R64: "R < 2 ^ 64" by simp
  have tiR: "to_int (nat R) = R" using Rpos R31 by (simp add: to_int_id)
  have tid: "to_int (getRows delta) = int (getRows delta)" using dr by (rule to_int_id)
  have tR: "to_size_t R = nat R" unfolding to_size_t_def using Rpos R64 by simp
  have out: "get_output_img_size L = \<lparr>sz_m = H - kH + 1, sz_n = W - kW + 1\<rparr>"
    by (simp add: get_output_img_size_def SIZE_add_scalar_def SIZE_sub_def sizes)
  have areas: "area \<lparr>sz_m = H - kH + 1, sz_n = W - kW + 1\<rparr> = (H - kH + 1) * (W - kW + 1)"
    "area \<lparr>sz_m = H, sz_n = W\<rparr> = H * W"
    by (simp_all add: area_def)
  have Rf: "H * W * int nI + 1 = R" by (simp add: R_def)
  have launch_eq: "convn_full_kernel_with_shm False True G' T' (shm0 i j)
        (int i * (H * W)) H W (ptr_add (getData delta) (int j * ((H - kH + 1) * (W - kW + 1))))
        (H - kH + 1) (W - kW + 1) (kernels L i j) kH kW R (int (getRows delta)) 0
      = acc_launch G' T' (int i * (H * W)) H W R
          (full_shm_val False True
             (ptr_add (getData delta) (int j * ((H - kH + 1) * (W - kW + 1))))
             (H - kH + 1) (W - kW + 1) (kernels L i j) kH kW (int (getRows delta)) 0)" for j i
    by (rule convn_full_kernel_with_shm_acc [OF Tc k])
  show ?thesis
    unfolding ConvolutionalLayer_feedBackward_def Let_def out sizes areas
      nO_def [symmetric] nI_def [symmetric] Rf tR
    using Rpos by (simp add: al cfg tiR tid launch_eq)
qed

lemma ConvolutionalLayer_feedBackward_pixel:
  fixes H W kH kW x y :: int
  assumes sizes: "get_input_img_size L = \<lparr>sz_m = H, sz_n = W\<rparr>"
      "get_kernel_size L = \<lparr>sz_m = kH, sz_n = kW\<rparr>"
    and al: "alloc W H = (G, T)"
    and cfg: "getSuitableShmConfig (G\<lparr>dim_z := of_nat (getCols delta)\<rparr>) T kH kW = Inr (G', T', sz)"
    and cov: "covers G' T' W H"
    and ob: "int (getCols delta) * (H * W * int (getNumInputMaps L) + 1) < 2 ^ 31"
    and ib: "int (getCols delta) * int (getRows delta) < 2 ^ 31"
    and k: "0 < kH" "0 < kW"
    and b: "b < getCols delta" and i: "i < getNumInputMaps L"
    and x: "0 \<le> x" "x < W" and y: "0 \<le> y" "y < H"
  shows "\<exists>err. ConvolutionalLayer_feedBackward alloc shm0 L delta = Inr err
          \<and> int (getRows err) = H * W * int (getNumInputMaps L) + 1
          \<and> getCols err = getCols delta
          \<and> getData err (int i * (H * W) + int b * int (getRows err) + (x * H + y))
            = (\<Sum>j<getNumOutputMaps L.
                 full_conv (ptr_add (getData delta)
                              (int j * ((H - kH + 1) * (W - kW + 1)) + int b * int (getRows delta)))
                   (H - kH + 1) (W - kW + 1) (rot180 (kernels L i j) kH kW) kH kW x y)"
proof -
  define nO where "nO = getNumOutputMaps L"
  define nI where "nI = getNumInputMaps L"
  define R where "R = H * W * int nI + 1"
  have hw: "0 < H" "0 < W" using x y by simp_all
  hence Apos: "0 < H * W" by simp
  have "0 \<le> H * W * int nI" using Apos by simp
  hence Rpos: "0 < R" unfolding R_def by simp
  have bpos: "0 < int (getCols delta)" using b by simp
  have rows: "H * W * int (getNumInputMaps L) + 1 < 2 ^ 31"
    using ob bpos by (rule product_bound) (use Rpos in \<open>simp add: R_def nI_def\<close>)
  have "int (getRows delta) < 2 ^ 31" using ib bpos by (rule product_bound) simp
  hence dr: "getRows delta < 2 ^ 31" by simp
  have "int (getCols delta) < 2 ^ 31"
    using ob by (rule product_bound') (use Rpos in \<open>simp_all add: R_def nI_def\<close>)
  hence batch: "getCols delta < 2 ^ 32" by simp
  have Tc: "0 < uint (dim_x T')" "0 < uint (dim_y T')" "unat (dim_z T') = 1"
    and Gc: "W \<le> uint (dim_x G') * uint (dim_x T')" "H \<le> uint (dim_y G') * uint (dim_y T')"
    using cov unfolding covers_def by simp_all
  have Tz: "0 < unat (dim_z T')" using Tc(3) by simp
  note dz = getSuitableShmConfig_dim_z [OF cfg]
  have Gz: "unat (dim_z G') = getCols delta"
    using dz batch by (simp add: unat_of_nat)
  have zb: "b < unat (dim_z G')" using b Gz by simp
  define c where "c = (\<lambda>i j. full_shm_val False True
      (ptr_add (getData delta) (int j * ((H - kH + 1) * (W - kW + 1))))
      (H - kH + 1) (W - kW + 1) (kernels L i j) kH kW (int (getRows delta)) 0)"
  have fb: "ConvolutionalLayer_feedBackward alloc shm0 L delta
      = Inr \<lparr>getRows = nat R, getCols = getCols delta,
             getData = fold (\<lambda>i. fold (\<lambda>j. acc_launch G' T' (int i * (H * W)) H W R (c i j))
                                 [0..<nO]) [0..<nI] (\<lambda>a. 0)\<rparr>"
    unfolding R_def c_def nO_def nI_def
    by (rule ConvolutionalLayer_feedBackward_acc [where alloc = alloc, OF sizes hw al cfg Tc(1,2) Tz rows dr k])
  define a where "a = int i * (H * W) + int b * R + (x * H + y)"
  have RR: "int nI * (H * W) \<le> R" unfolding R_def by (simp add: mult.commute)
  have "fold (\<lambda>i. fold (\<lambda>j. acc_launch G' T' (int i * (H * W)) H W R (c i j)) [0..<nO]) [0..<nI]
          (\<lambda>a. 0) a
      = 0 + (\<Sum>j<nO. c i j (int b) x y)"
    unfolding a_def
    by (rule nested_acc_launch_pixel [OF Tc Gc zb x y _ RR]) (use i in \<open>simp add: nI_def\<close>)
  also have "(\<Sum>j<nO. c i j (int b) x y)
      = (\<Sum>j<nO. full_conv (ptr_add (getData delta)
                              (int j * ((H - kH + 1) * (W - kW + 1)) + int b * int (getRows delta)))
                   (H - kH + 1) (W - kW + 1) (rot180 (kernels L i j) kH kW) kH kW x y)"
    unfolding c_def full_shm_val_rot ptr_add_ptr_add by simp
  finally have val: "fold (\<lambda>i. fold (\<lambda>j. acc_launch G' T' (int i * (H * W)) H W R (c i j)) [0..<nO])
          [0..<nI] (\<lambda>a. 0) a
      = (\<Sum>j<nO. full_conv (ptr_add (getData delta)
                              (int j * ((H - kH + 1) * (W - kW + 1)) + int b * int (getRows delta)))
                   (H - kH + 1) (W - kW + 1) (rot180 (kernels L i j) kH kW) kH kW x y)"
    by simp
  show ?thesis
    unfolding fb
    using val Rpos
    by (simp add: a_def R_def nO_def nI_def)
qed


lemma valid_conv_rot180:
  "valid_conv data H kern kH kW x y = valid_corr data H (rot180 kern kH kW) kH kW x y"
proof -
  have "valid_corr data H (rot180 kern kH kW) kH kW x y
      = tile_sum (rot180 kern kH kW) (\<lambda>xx yy. data (xx * H + yy)) kH kW x y"
    by (simp add: valid_corr_def tile_sum_def)
  also have "\<dots> = valid_conv data H kern kH kW x y"
    unfolding tile_sum_reindex valid_conv_def by (simp add: rot180_def flip_index)
  finally show ?thesis by simp
qed

lemma small_scheduler_config:
  "getSuitableShmConfig \<lparr>dim_x = 1, dim_y = 1, dim_z = 1\<rparr>
       \<lparr>dim_x = 32, dim_y = 32, dim_z = 1\<rparr> 2 1
     = Inr (\<lparr>dim_x = 1, dim_y = 1, dim_z = 1\<rparr>, \<lparr>dim_x = 32, dim_y = 32, dim_z = 1\<rparr>, 4232)"
  by (simp add: getSuitableShmConfig_def getSuitableShmConfig_while.simps SHM_SIZE_of_def
      MAX_SHARED_MEMORY_SIZE_def)

lemma small_config_covers:
  "covers \<lparr>dim_x = 1, dim_y = 1, dim_z = 1\<rparr> \<lparr>dim_x = 32, dim_y = 32, dim_z = 1\<rparr> 1 1"
  "covers \<lparr>dim_x = 1, dim_y = 1, dim_z = 1\<rparr> \<lparr>dim_x = 32, dim_y = 32, dim_z = 1\<rparr> 1 2"
  by (simp_all add: covers_def)

lemma SubSamplingLayer_rows:
  "getRows (SubSamplingLayer_feedForward alloc resized L fin)
     = to_size_t (area (sub_get_output_img_size L) * int (sub_getNumOutputMaps L) + 1)"
  "getCols (SubSamplingLayer_feedForward alloc resized L fin) = getCols fin"
  "getRows (SubSamplingLayer_feedBackward alloc resized L delta)
     = to_size_t (area (sub_get_input_img_size L) * int (sub_getNumInputMaps L) + 1)"
  "getCols (SubSamplingLayer_feedBackward alloc resized L delta) = getCols delta"
  by (simp_all add: SubSamplingLayer_feedForward_def SubSamplingLayer_feedBackward_def Let_def
      split: prod.splits)


lemma fold_writes_value:
  assumes ex: "\<exists>k\<in>set ks. wr k"
    and w: "\<And>k s. k \<in> set ks \<Longrightarrow> wr k \<Longrightarrow> F k s q = v"
    and nw: "\<And>k s. k \<in> set ks \<Longrightarrow> \<not> wr k \<Longrightarrow> F k s q = s q"
  shows "fold F ks s q = v"
  using ex w nw
proof (induction ks arbitrary: s rule: rev_induct)
  case Nil
  then show ?case by simp
next
  case (snoc k ks)
  have step: "fold F (ks @ [k]) s q = F k (fold F ks s) q" by simp
  show ?case
  proof (cases "wr k")
    case True
    show ?thesis unfolding step by (rule snoc.prems(2)) (simp_all add: True)
  next
    case False
    have "fold F ks s q = v"
    proof (rule snoc.IH)
      show "\<exists>k\<in>set ks. wr k" using snoc.prems(1) False by auto
      show "\<And>k s. k \<in> set ks \<Longrightarrow> wr k \<Longrightarrow> F k s q = v" using snoc.prems(2) by simp
      show "\<And>k s. k \<in> set ks \<Longrightarrow> \<not> wr k \<Longrightarrow> F k s q = s q" using snoc.prems(3) by simp
    qed
    moreover have "F k (fold F ks s) q = fold F ks s q"
      by (rule snoc.prems(3)) (simp_all add: False)
    ultimately show ?thesis unfolding step by simp
  qed
qed

lemma upsample_launch_pixel:
  fixes h w H W :: "8 word" and x y :: int
  assumes T: "0 < uint (dim_x T)" "0 < uint (dim_y T)" "0 < unat (dim_z T)"
    and cover: "uint H \<le> uint (dim_x G) * uint (dim_x T)" "uint W \<le> uint (dim_y G) * uint (dim_y T)"
    and z: "z < unat (dim_z G)"
    and x: "0 \<le> x" "x < uint H" and y: "0 \<le> y" "y < uint W"
  shows "launch G T (upsample_kernel dst src h w H W) out
           (dst + int z * uint H * uint W + (y * uint H + x))
       = src (int z * uint h * uint w
              + (uint (fst (upsample_source h w H (word_of_int x) (word_of_int y))) * uint h
                 + uint (snd (upsample_source h w H (word_of_int x) (word_of_int y)))))"
proof -
  define q where "q = dst + int z * uint H * uint W + (y * uint H + x)"
  define x16 where "x16 = (\<lambda>t. word_of_int (global_x t) :: 16 word)"
  define y16 where "y16 = (\<lambda>t. word_of_int (global_y t) :: 16 word)"
  define act where "act = (\<lambda>t. uint (y16 t) < uint W \<and> uint (x16 t) < uint H)"
  define addr where "addr = (\<lambda>t. dst + blockIdx_z t * uint H * uint W
      + (uint (y16 t) * uint H + uint (x16 t)))"
  define val where "val = (\<lambda>t. src (blockIdx_z t * uint h * uint w
      + (uint (fst (upsample_source h w H (x16 t) (y16 t))) * uint h
         + uint (snd (upsample_source h w H (x16 t) (y16 t))))))"
  have body: "upsample_kernel dst src h w H W t s
      = (if act t then s(addr t := val t) else s)" for t s
    unfolding upsample_kernel_thread Let_def act_def addr_def val_def x16_def y16_def
    by (simp add: not_le)
  have H256: "uint H < 65536" "uint W < 65536"
    using uint_lt2p [of H] uint_lt2p [of W] by simp_all
  have ux: "uint (word_of_int x :: 16 word) = x" and uy: "uint (word_of_int y :: 16 word) = y"
    using x y H256 by (simp_all add: uint_word_of_int)
  have coords: "blockIdx_z t = int z \<and> x16 t = word_of_int x \<and> y16 t = word_of_int y"
    if a: "act t" and e: "addr t = q" for t
  proof -
    have r: "0 \<le> uint (y16 t)" "uint (y16 t) < uint W" "0 \<le> uint (x16 t)" "uint (x16 t) < uint H"
      using a by (simp_all add: act_def)
    have e': "dst + blockIdx_z t * (uint H * uint W) + (uint (y16 t) * uint H + uint (x16 t))
        = dst + int z * (uint H * uint W) + (y * uint H + x)"
      using e by (simp add: addr_def q_def mult.assoc)
    have sep: "blockIdx_z t = int z \<or> uint W * uint H \<le> uint H * uint W" by simp
    note inj = pix_addr_inj [OF r y x sep e']
    have "x16 t = word_of_int (uint (x16 t))" "y16 t = word_of_int (uint (y16 t))" by simp_all
    thus ?thesis using inj by simp
  qed
  obtain t0 where t0: "t0 \<in> set (all_threads G T)" "blockIdx_z t0 = int z" "global_x t0 = x"
      "global_y t0 = y"
  proof -
    have xc: "x < uint (dim_x G) * uint (dim_x T)" and yc: "y < uint (dim_y G) * uint (dim_y T)"
      using x y cover by simp_all
    from pixel_thread_exists [OF T z x(1) xc y(1) yc] show ?thesis using that by blast
  qed
  have a0: "act t0" "addr t0 = q"
    using x y by (simp_all add: act_def addr_def q_def x16_def y16_def t0 ux uy)
  have "fold (upsample_kernel dst src h w H W) (all_threads G T) out q
      = src (int z * uint h * uint w
              + (uint (fst (upsample_source h w H (word_of_int x) (word_of_int y))) * uint h
                 + uint (snd (upsample_source h w H (word_of_int x) (word_of_int y)))))"
  proof (rule fold_writes_value [where wr = "\<lambda>t. act t \<and> addr t = q"])
    show "\<exists>t\<in>set (all_threads G T). act t \<and> addr t = q" using t0(1) a0 by blast
  next
    fix t s assume "act t \<and> addr t = q"
    hence a: "act t" and e: "addr t = q" by simp_all
    note c = coords [OF a e]
    have "upsample_kernel dst src h w H W t s q = val t" unfolding body using a e by simp
    also have "val t = src (int z * uint h * uint w
              + (uint (fst (upsample_source h w H (word_of_int x) (word_of_int y))) * uint h
                 + uint (snd (upsample_source h w H (word_of_int x) (word_of_int y)))))"
      unfolding val_def using c by simp
    finally show "upsample_kernel dst src h w H W t s q = src (int z * uint h * uint w
              + (uint (fst (upsample_source h w H (word_of_int x) (word_of_int y))) * uint h
                 + uint (snd (upsample_source h w H (word_of_int x) (word_of_int y)))))" .
  next
    fix t s assume "\<not> (act t \<and> addr t = q)"
    thus "upsample_kernel dst src h w H W t s q = s q" unfolding body by auto
  qed
  thus ?thesis unfolding launch_all_threads q_def .
qed

lemma upsample_launch_frame:
  fixes h w H W :: "8 word"
  assumes "\<And>z x y. z < unat (dim_z G) \<Longrightarrow> 0 \<le> x \<Longrightarrow> x < uint H \<Longrightarrow> 0 \<le> y \<Longrightarrow> y < uint W \<Longrightarrow>
             q \<noteq> dst + int z * uint H * uint W + (y * uint H + x)"
  shows "launch G T (upsample_kernel dst src h w H W) out q = out q"
  unfolding launch_all_threads
proof (rule fold_frame)
  fix t s assume t: "t \<in> set (all_threads G T)"
  note nn = thread_coords_nonneg [OF t]
  define z where "z = nat (blockIdx_z t)"
  have z: "int z = blockIdx_z t" "z < unat (dim_z G)" using nn(3,4) by (simp_all add: z_def)
  define x where "x = uint (word_of_int (global_x t) :: 16 word)"
  define y where "y = uint (word_of_int (global_y t) :: 16 word)"
  show "upsample_kernel dst src h w H W t s q = s q"
  proof (cases "y < uint W \<and> x < uint H")
    case True
    have "q \<noteq> dst + int z * uint H * uint W + (y * uint H + x)"
      by (rule assms [OF z(2)]) (use True in \<open>simp_all add: x_def y_def\<close>)
    thus ?thesis
      unfolding upsample_kernel_thread Let_def x_def [symmetric] y_def [symmetric] z(1) [symmetric]
      using True by simp
  next
    case False
    thus ?thesis
      unfolding upsample_kernel_thread Let_def x_def [symmetric] y_def [symmetric]
      by (auto simp: not_le)
  qed
qed


lemma SubSamplingLayer_feedBackward_pixel:
  fixes H W x y :: int
  assumes size: "sub_get_input_img_size L = \<lparr>sz_m = H, sz_n = W\<rparr>"
    and s: "0 < sub_scale L" "int (sub_scale L) \<le> H" "int (sub_scale L) \<le> W"
    and small: "H < 256" "W < 256"
    and al: "alloc H W = (G, T)"
    and cov: "covers G T H W"
    and maps: "sub_getNumInputMaps L < 2 ^ 32"
    and b: "b < getCols delta" and z: "z < sub_getNumInputMaps L"
    and x: "0 \<le> x" "x < H" and y: "0 \<le> y" "y < W"
  shows "getRows (SubSamplingLayer_feedBackward alloc resized L delta)
           = nat (H * W * int (sub_getNumInputMaps L) + 1)"
    and "getData (SubSamplingLayer_feedBackward alloc resized L delta)
           (int b * (H * W * int (sub_getNumInputMaps L) + 1) + int z * (H * W) + (y * H + x))
       = getData delta (int b * int (getRows delta)
           + (int z * ((H div int (sub_scale L)) * (W div int (sub_scale L)))
              + (uint (fst (upsample_source (word_of_int (H div int (sub_scale L)))
                              (word_of_int (W div int (sub_scale L))) (word_of_int H)
                              (word_of_int x) (word_of_int y)))
                   * (H div int (sub_scale L))
                 + uint (snd (upsample_source (word_of_int (H div int (sub_scale L)))
                              (word_of_int (W div int (sub_scale L))) (word_of_int H)
                              (word_of_int x) (word_of_int y))))))
         * (1 / real (sub_scale L * sub_scale L))"
proof -
  define sc where "sc = int (sub_scale L)"
  define nI where "nI = sub_getNumInputMaps L"
  define h where "h = H div sc"
  define w where "w = W div sc"
  define R where "R = H * W * int nI + 1"
  define h8 where "h8 = (word_of_int h :: 8 word)"
  define w8 where "w8 = (word_of_int w :: 8 word)"
  define H8 where "H8 = (word_of_int H :: 8 word)"
  define W8 where "W8 = (word_of_int W :: 8 word)"
  define G' where "G' = G\<lparr>dim_z := of_nat nI\<rparr>"
  have scp: "0 < sc" using s(1) by (simp add: sc_def)
  have HW: "0 < H" "0 < W" using x y by simp_all
  have "H div sc \<le> H div 1" "W div sc \<le> W div 1"
    using HW scp by (intro zdiv_mono2; simp)+
  hence h0: "0 \<le> h" "h \<le> H" and w0: "0 \<le> w" "w \<le> W"
    unfolding h_def w_def using HW scp
    by (simp_all add: pos_imp_zdiv_nonneg_iff)
  have uH: "uint H8 = H" "uint W8 = W" "uint h8 = h" "uint w8 = w"
    unfolding H8_def W8_def h8_def w8_def using HW small h0 w0 by (simp_all add: uint_word_of_int)
  have "H * W \<le> 255 * 255" using HW small by (intro mult_mono) simp_all
  hence A: "H * W \<le> 65025" by simp
  have "(H * W) * int nI \<le> 65025 * 2 ^ 32"
    using A by (rule mult_mono) (use maps HW in \<open>simp_all add: nI_def\<close>)
  hence R64: "R < 2 ^ 64" unfolding R_def by simp
  have "0 \<le> H * W * int nI" using HW by simp
  hence Rpos: "0 < R" unfolding R_def by simp
  have tR: "to_size_t R = nat R" unfolding to_size_t_def using Rpos R64 by simp
  have out: "sub_get_output_img_size L = \<lparr>sz_m = h, sz_n = w\<rparr>"
    using HW scp
    by (simp add: sub_get_output_img_size_def SIZE_div_scalar_def size sdiv_nonneg h_def w_def sc_def)
  have Gz: "unat (dim_z G') = nI" unfolding G'_def using maps by (simp add: unat_of_nat nI_def)
  have Tc: "0 < uint (dim_x T)" "0 < uint (dim_y T)" "0 < unat (dim_z T)"
    and Gc: "uint H8 \<le> uint (dim_x G') * uint (dim_x T)" "uint W8 \<le> uint (dim_y G') * uint (dim_y T)"
    using cov unfolding covers_def uH G'_def by simp_all
  define E where "E = fold (\<lambda>i. launch G' T
        (upsample_kernel (int i * R) (ptr_add (getData delta) (int i * int (getRows delta)))
           h8 w8 H8 W8)) [0..<getCols delta] resized"
  have fb: "SubSamplingLayer_feedBackward alloc resized L delta
      = \<lparr>getRows = nat R, getCols = getCols delta,
         getData = (\<lambda>a. E a * (1 / real (sub_scale L * sub_scale L)))\<rparr>"
    unfolding SubSamplingLayer_feedBackward_def Let_def size out
    using Rpos
    by (simp add: al area_def nI_def [symmetric] R_def [symmetric] tR G'_def E_def
        h8_def w8_def H8_def W8_def)
  show "getRows (SubSamplingLayer_feedBackward alloc resized L delta)
           = nat (H * W * int (sub_getNumInputMaps L) + 1)"
    unfolding fb by (simp add: R_def nI_def)
  define q where "q = int b * R + int z * (H * W) + (y * H + x)"
  define v where "v = getData delta (int b * int (getRows delta)
           + (int z * (h * w)
              + (uint (fst (upsample_source h8 w8 H8 (word_of_int x) (word_of_int y))) * h
                 + uint (snd (upsample_source h8 w8 H8 (word_of_int x) (word_of_int y))))))"
  have px: "0 \<le> y' * H + x' \<and> y' * H + x' < H * W"
    if "0 \<le> x'" "x' < H" "0 \<le> y'" "y' < W" for x' y'
    using pooled_address_bound [of y' W x' H] that by simp
  have rb: "0 \<le> int z' * (H * W) + p \<and> int z' * (H * W) + p < R"
    if "z' < nI" "0 \<le> p" "p < H * W" for z' p
  proof -
    have "int z' * (H * W) + p < int nI * (H * W)"
      by (rule region_offset_bound(2) [of "int z'" "int nI" p "H * W"]) (use that in simp_all)
    moreover have "0 \<le> int z' * (H * W) + p"
      by (rule region_offset_bound(1) [of "int z'" "int nI" p "H * W"]) (use that in simp_all)
    ultimately show ?thesis unfolding R_def by (simp add: mult.commute)
  qed
  have "E q = v"
    unfolding E_def
  proof (rule fold_writes_value [where wr = "\<lambda>i. i = b"])
    show "\<exists>i\<in>set [0..<getCols delta]. i = b" using b by simp
  next
    fix i s assume "i = b"
    have zz: "z < unat (dim_z G')" using z Gz by (simp add: nI_def)
    have "launch G' T (upsample_kernel (int b * R) (ptr_add (getData delta) (int b * int (getRows delta)))
             h8 w8 H8 W8) s
           (int b * R + int z * uint H8 * uint W8 + (y * uint H8 + x))
        = ptr_add (getData delta) (int b * int (getRows delta)) (int z * uint h8 * uint w8
              + (uint (fst (upsample_source h8 w8 H8 (word_of_int x) (word_of_int y))) * uint h8
                 + uint (snd (upsample_source h8 w8 H8 (word_of_int x) (word_of_int y)))))"
      by (rule upsample_launch_pixel [OF Tc Gc zz]) (use x y in \<open>simp_all add: uH\<close>)
    thus "launch G' T (upsample_kernel (int i * R) (ptr_add (getData delta) (int i * int (getRows delta)))
             h8 w8 H8 W8) s q = v"
      unfolding \<open>i = b\<close> q_def v_def uH ptr_add_def by (simp add: mult.assoc)
  next
    fix i s assume i: "i \<noteq> b"
    show "launch G' T (upsample_kernel (int i * R) (ptr_add (getData delta) (int i * int (getRows delta)))
             h8 w8 H8 W8) s q = s q"
    proof (rule upsample_launch_frame)
      fix z' :: nat and x' y' :: int
      assume r: "z' < unat (dim_z G')" "0 \<le> x'" "x' < uint H8" "0 \<le> y'" "y' < uint W8"
      have z': "z' < nI" using r(1) Gz by simp
      have r': "x' < H" "y' < W" using r uH by simp_all
      note p = px [OF x y] and p' = px [OF r(2) r'(1) r(4) r'(2)]
      note c = rb [OF _ p [THEN conjunct1] p [THEN conjunct2], of z]
        and c' = rb [OF z' p' [THEN conjunct1] p' [THEN conjunct2]]
      have zn: "z < nI" using z by (simp add: nI_def)
      show "q \<noteq> int i * R + int z' * uint H8 * uint W8 + (y' * uint H8 + x')"
      proof
        assume e: "q = int i * R + int z' * uint H8 * uint W8 + (y' * uint H8 + x')"
        have e': "int b * R + (int z * (H * W) + (y * H + x))
            = int i * R + (int z' * (H * W) + (y' * H + x'))"
          using e unfolding q_def uH by (simp add: mult.assoc)
        have "int b = int i"
          by (rule int_decomp_unique(1) [OF c [OF zn, THEN conjunct1] c [OF zn, THEN conjunct2]
                c' [THEN conjunct1] c' [THEN conjunct2] e'])
        thus False using i by simp
      qed
    qed
  qed
  thus "getData (SubSamplingLayer_feedBackward alloc resized L delta)
           (int b * (H * W * int (sub_getNumInputMaps L) + 1) + int z * (H * W) + (y * H + x))
       = getData delta (int b * int (getRows delta)
           + (int z * ((H div int (sub_scale L)) * (W div int (sub_scale L)))
              + (uint (fst (upsample_source (word_of_int (H div int (sub_scale L)))
                              (word_of_int (W div int (sub_scale L))) (word_of_int H)
                              (word_of_int x) (word_of_int y)))
                   * (H div int (sub_scale L))
                 + uint (snd (upsample_source (word_of_int (H div int (sub_scale L)))
                              (word_of_int (W div int (sub_scale L))) (word_of_int H)
                              (word_of_int x) (word_of_int y))))))
         * (1 / real (sub_scale L * sub_scale L))"
    unfolding fb q_def v_def R_def nI_def h8_def w8_def H8_def h_def w_def sc_def by simp
qed

lemma small_pooling_config_covers:
  "covers \<lparr>dim_x = 1, dim_y = 1, dim_z = 1\<rparr> \<lparr>dim_x = 32, dim_y = 32, dim_z = 1\<rparr> 8 3"
  "covers \<lparr>dim_x = 1, dim_y = 1, dim_z = 1\<rparr> \<lparr>dim_x = 32, dim_y = 32, dim_z = 1\<rparr> 4 4"
  by (simp_all add: covers_def)

lemma SubSamplingLayer_feedBackward_exact:
  fixes H W x y :: int
  assumes size: "sub_get_input_img_size L = \<lparr>sz_m = H, sz_n = W\<rparr>"
    and s: "0 < sub_scale L" "int (sub_scale L) dvd H" "int (sub_scale L) dvd W"
    and small: "H < 256" "W < 256"
    and al: "alloc H W = (G, T)"
    and cov: "covers G T H W"
    and maps: "sub_getNumInputMaps L < 2 ^ 32"
    and b: "b < getCols delta" and z: "z < sub_getNumInputMaps L"
    and x: "0 \<le> x" "x < H" and y: "0 \<le> y" "y < W"
  shows "getRows (SubSamplingLayer_feedBackward alloc resized L delta)
           = nat (H * W * int (sub_getNumInputMaps L) + 1)
       \<and> getData (SubSamplingLayer_feedBackward alloc resized L delta)
           (int b * (H * W * int (sub_getNumInputMaps L) + 1) + int z * (H * W) + (y * H + x))
         = getData delta (int b * int (getRows delta)
             + (int z * ((H div int (sub_scale L)) * (W div int (sub_scale L)))
                + ((y div int (sub_scale L)) * (H div int (sub_scale L))
                   + x div int (sub_scale L))))
           * (1 / real (sub_scale L * sub_scale L))"
proof -
  define sc where "sc = int (sub_scale L)"
  define h where "h = H div sc"
  define w where "w = W div sc"
  have scp: "0 < sc" using s(1) by (simp add: sc_def)
  have HW: "0 < H" "0 < W" using x y by simp_all
  have Hh: "H = h * sc" and Ww: "W = w * sc"
    using s(2,3) unfolding h_def w_def sc_def by simp_all
  have "0 < h * sc" "0 < w * sc" using HW Hh Ww by simp_all
  hence hp: "0 < h" and wp: "0 < w" using scp by (simp_all add: zero_less_mult_iff)
  have "1 * sc \<le> h * sc" "1 * sc \<le> w * sc"
    using hp wp scp by (intro mult_right_mono; simp)+
  hence le: "sc \<le> H" "sc \<le> W" using Hh Ww by simp_all
  have hH: "h \<le> H" "w \<le> W"
  proof -
    have "h * 1 \<le> h * sc" "w * 1 \<le> w * sc" using hp wp scp by (intro mult_left_mono; simp)+
    thus "h \<le> H" "w \<le> W" using Hh Ww by simp_all
  qed
  define h8 where "h8 = (word_of_int h :: 8 word)"
  define w8 where "w8 = (word_of_int w :: 8 word)"
  define H8 where "H8 = (word_of_int H :: 8 word)"
  define W8 where "W8 = (word_of_int W :: 8 word)"
  define x16 where "x16 = (word_of_int x :: 16 word)"
  define y16 where "y16 = (word_of_int y :: 16 word)"
  have u: "uint H8 = H" "uint W8 = W" "uint h8 = h" "uint w8 = w" "uint x16 = x" "uint y16 = y"
    unfolding H8_def W8_def h8_def w8_def x16_def y16_def
    using HW small hp wp hH x y by (simp_all add: uint_word_of_int)
  have pre: "uint h8 = uint H8 div sc" "uint w8 = uint W8 div sc" "0 < uint h8" "0 < uint w8"
      "uint x16 < uint H8" "uint y16 < uint W8"
    unfolding u using hp wp x y by (simp_all add: h_def w_def)
  note g = upsample_source_general [OF scp pre]
  have hs: "H div h = sc" using Hh hp by simp
  have xs: "x div sc < h"
    by (rule int_div_less_of_less_mult [OF scp]) (use x(2) Hh in simp)
  have ys: "y div sc < w"
    by (rule int_div_less_of_less_mult [OF scp]) (use y(2) Ww in simp)
  have sy: "uint (fst (upsample_source h8 w8 H8 x16 y16)) = y div sc"
    using g(2) ys unfolding u hs by simp
  have sx: "uint (snd (upsample_source h8 w8 H8 x16 y16)) = x div sc"
    using g(3) xs unfolding u hs by simp
  note p = SubSamplingLayer_feedBackward_pixel
    [where alloc = alloc, OF size s(1) le [unfolded sc_def] small al cov maps b z x y, of resized]
  show ?thesis
    using p sx sy
    unfolding h8_def w8_def H8_def x16_def y16_def h_def w_def sc_def
    by simp
qed























section \<open>Properties of the size rule, the dispatcher and the tiling scheduler\<close>

lemma getSuitableShmConfig_unfold:
  "getSuitableShmConfig grids threads kH kW =
     (if MAX_SHARED_MEMORY_SIZE < SHM_SIZE_of threads kH kW \<and> 32 \<le> dim_x threads * dim_y threads
      then (if dim_y threads \<le> dim_x threads
            then getSuitableShmConfig (grids\<lparr>dim_x := dim_x grids * 2\<rparr>)
                   (threads\<lparr>dim_x := dim_x threads div 2\<rparr>) kH kW
            else getSuitableShmConfig (grids\<lparr>dim_y := dim_y grids * 2\<rparr>)
                   (threads\<lparr>dim_y := dim_y threads div 2\<rparr>) kH kW)
      else if MAX_SHARED_MEMORY_SIZE < SHM_SIZE_of threads kH kW
           then Inl (Exceeds_maximum_shared_memory kH kW grids threads (SHM_SIZE_of threads kH kW))
           else Inr (grids, threads, SHM_SIZE_of threads kH kW))"
  unfolding getSuitableShmConfig_def
  by (subst getSuitableShmConfig_while.simps) simp

lemma getSuitableShmConfig_while_exit:
  "getSuitableShmConfig_while grids threads kH kW = (g', t') \<Longrightarrow>
     \<not> (MAX_SHARED_MEMORY_SIZE < SHM_SIZE_of t' kH kW \<and> 32 \<le> dim_x t' * dim_y t')"
proof (induction grids threads kH kW rule: getSuitableShmConfig_while.induct)
  case (1 grids threads kH kW)
  then show ?case
    by (subst (asm) (3) getSuitableShmConfig_while.simps) (auto split: if_splits)
qed

lemma getSuitableShmConfig_Inr:
  "getSuitableShmConfig grids threads kH kW = Inr (g', t', sz) \<Longrightarrow>
     sz = SHM_SIZE_of t' kH kW \<and> sz \<le> MAX_SHARED_MEMORY_SIZE"
  by (auto simp: getSuitableShmConfig_def split: prod.splits if_splits)

lemma getSuitableShmConfig_Inl:
  "getSuitableShmConfig grids threads kH kW = Inl e \<Longrightarrow>
     \<exists>g' t'. e = Exceeds_maximum_shared_memory kH kW g' t' (SHM_SIZE_of t' kH kW)
       \<and> MAX_SHARED_MEMORY_SIZE < SHM_SIZE_of t' kH kW \<and> dim_x t' * dim_y t' < 32"
  using getSuitableShmConfig_while_exit
  by (fastforce simp: getSuitableShmConfig_def not_le split: prod.splits if_splits)

text \<open>
  C6 as the spec states it: \<^verbatim>\<open>convn\<close> allocates its output with exactly the size the rule
  gives, for every data and kernel. For FULL and FULL_SHM of two matrices with no rows and no
  columns the rule gives \<open>(-1, -1)\<close>; \<^verbatim>\<open>convn\<close> passes it to the matrix constructor, whose
  unsigned parameters turn it into \<open>2 ^ 64 - 1\<close> rows and columns.
\<close>

theorem convn_FULL_of_empty_matrices:
  "get_convn_size_mat \<lparr>getRows = 0, getCols = 0, getData = (\<lambda>a. 0)\<rparr>
       \<lparr>getRows = 0, getCols = 0, getData = (\<lambda>a. 0)\<rparr> FULL_SHM
     = Inr \<lparr>sz_m = - 1, sz_n = - 1\<rparr>
   \<and> convn (\<lambda>c r. (\<lparr>dim_x = 1, dim_y = 1, dim_z = 1\<rparr>, \<lparr>dim_x = 32, dim_y = 32, dim_z = 1\<rparr>))
       (\<lambda>a. 0)
       \<lparr>getRows = 0, getCols = 0, getData = (\<lambda>a. 0)\<rparr>
       \<lparr>getRows = 0, getCols = 0, getData = (\<lambda>a. 0)\<rparr> FULL_SHM
     = Inr \<lparr>getRows = 18446744073709551615, getCols = 18446744073709551615,
            getData = (\<lambda>a. 0)\<rparr>
   \<and> map_sum id (\<lambda>out. (getRows out, getCols out))
       (convn (\<lambda>c r. (\<lparr>dim_x = 1, dim_y = 1, dim_z = 1\<rparr>, \<lparr>dim_x = 32, dim_y = 32, dim_z = 1\<rparr>))
          (\<lambda>a. 0)
          \<lparr>getRows = 0, getCols = 0, getData = (\<lambda>a. 0)\<rparr>
          \<lparr>getRows = 0, getCols = 0, getData = (\<lambda>a. 0)\<rparr> FULL)
     = Inr (18446744073709551615, 18446744073709551615)"
  by (simp add: convn_def get_convn_size_mat_def Let_def to_size_t_def SIZE_sub_scalar_def
      SIZE_add_def)

text \<open>
  C6, amended. The output size of a convolution: the data size for SAME and SAME_SHM; data
  minus kernel plus one, each component clamped at zero, for VALID and VALID_SHM; data plus
  kernel minus one, not clamped, for FULL and FULL_SHM; the unknown-type error for any other
  mode value. \<^verbatim>\<open>convn\<close> fails with the same error where \<^verbatim>\<open>get_convn_size\<close> fails, and
  otherwise passes the two components of this size to the matrix constructor: the shape of
  what it returns is the size converted to \<^verbatim>\<open>size_t\<close>, which is exactly the size whenever its
  components are non-negative (and below \<open>2 ^ 64\<close>).
\<close>

theorem get_convn_size_by_mode:
  "get_convn_size d k SAME = Inr d
   \<and> get_convn_size d k SAME_SHM = Inr d
   \<and> get_convn_size d k VALID
       = Inr \<lparr>sz_m = max (sz_m d - sz_m k + 1) 0, sz_n = max (sz_n d - sz_n k + 1) 0\<rparr>
   \<and> get_convn_size d k VALID_SHM
       = Inr \<lparr>sz_m = max (sz_m d - sz_m k + 1) 0, sz_n = max (sz_n d - sz_n k + 1) 0\<rparr>
   \<and> get_convn_size d k FULL = Inr \<lparr>sz_m = sz_m d + sz_m k - 1, sz_n = sz_n d + sz_n k - 1\<rparr>
   \<and> get_convn_size d k FULL_SHM = Inr \<lparr>sz_m = sz_m d + sz_m k - 1, sz_n = sz_n d + sz_n k - 1\<rparr>
   \<and> get_convn_size d k (Other_ConvType v) = Inl Unknown_type_of_convolution
   \<and> map_sum id (\<lambda>out. (getRows out, getCols out)) (convn alloc fresh data kern type)
       = map_sum id (\<lambda>s. (to_size_t (sz_m s), to_size_t (sz_n s)))
           (get_convn_size \<lparr>sz_m = int (getRows data), sz_n = int (getCols data)\<rparr>
              \<lparr>sz_m = int (getRows kern), sz_n = int (getCols kern)\<rparr> type)
   \<and> (get_convn_size \<lparr>sz_m = int (getRows data), sz_n = int (getCols data)\<rparr>
              \<lparr>sz_m = int (getRows kern), sz_n = int (getCols kern)\<rparr> type = Inr s
        \<and> 0 \<le> sz_m s \<and> sz_m s < 2 ^ 64 \<and> 0 \<le> sz_n s \<and> sz_n s < 2 ^ 64
       \<longrightarrow> map_sum id (\<lambda>out. (int (getRows out), int (getCols out)))
             (convn alloc fresh data kern type) = Inr (sz_m s, sz_n s))"
proof -
  have sizes: "get_convn_size d k VALID
       = Inr \<lparr>sz_m = max (sz_m d - sz_m k + 1) 0, sz_n = max (sz_n d - sz_n k + 1) 0\<rparr>"
    "get_convn_size d k VALID_SHM
       = Inr \<lparr>sz_m = max (sz_m d - sz_m k + 1) 0, sz_n = max (sz_n d - sz_n k + 1) 0\<rparr>"
    "get_convn_size d k FULL = Inr \<lparr>sz_m = sz_m d + sz_m k - 1, sz_n = sz_n d + sz_n k - 1\<rparr>"
    "get_convn_size d k FULL_SHM = Inr \<lparr>sz_m = sz_m d + sz_m k - 1, sz_n = sz_n d + sz_n k - 1\<rparr>"
    by (simp_all add: SIZE_max_def SIZE_add_scalar_def SIZE_sub_def SIZE_sub_scalar_def SIZE_add_def)
  have shape: "map_sum id (\<lambda>out. (getRows out, getCols out)) (convn alloc fresh data kern type)
       = map_sum id (\<lambda>s. (to_size_t (sz_m s), to_size_t (sz_n s)))
           (get_convn_size \<lparr>sz_m = int (getRows data), sz_n = int (getCols data)\<rparr>
              \<lparr>sz_m = int (getRows kern), sz_n = int (getCols kern)\<rparr> type)"
    by (cases type) (simp_all add: convn_def get_convn_size_mat_def Let_def split: prod.splits)
  have exact: "map_sum id (\<lambda>out. (int (getRows out), int (getCols out)))
             (convn alloc fresh data kern type) = Inr (sz_m s, sz_n s)"
    if s: "get_convn_size \<lparr>sz_m = int (getRows data), sz_n = int (getCols data)\<rparr>
              \<lparr>sz_m = int (getRows kern), sz_n = int (getCols kern)\<rparr> type = Inr s"
      and b: "0 \<le> sz_m s" "sz_m s < 2 ^ 64" "0 \<le> sz_n s" "sz_n s < 2 ^ 64"
  proof -
    have c: "int (to_size_t (sz_m s)) = sz_m s" "int (to_size_t (sz_n s)) = sz_n s"
      using b by (simp_all add: to_size_t_def)
    obtain out where out: "convn alloc fresh data kern type = Inr out"
      using shape s by (cases "convn alloc fresh data kern type") simp_all
    have "(getRows out, getCols out) = (to_size_t (sz_m s), to_size_t (sz_n s))"
      using shape unfolding s out by simp
    then show ?thesis unfolding out using c by simp
  qed
  from sizes shape exact show ?thesis by simp
qed

text \<open>
  A 3 by 3 matrix and a 2 by 2 kernel in FULL mode: the size is 4 by 4, and so is the shape of
  the matrix \<^verbatim>\<open>convn\<close> returns.
\<close>

theorem get_convn_size_by_mode_witness:
  "get_convn_size \<lparr>sz_m = 3, sz_n = 3\<rparr> \<lparr>sz_m = 2, sz_n = 2\<rparr> FULL = Inr \<lparr>sz_m = 4, sz_n = 4\<rparr>
   \<and> map_sum id (\<lambda>out. (int (getRows out), int (getCols out)))
       (convn (\<lambda>c r. (\<lparr>dim_x = 1, dim_y = 1, dim_z = 1\<rparr>, \<lparr>dim_x = 32, dim_y = 32, dim_z = 1\<rparr>))
          (\<lambda>a. 0)
          \<lparr>getRows = 3, getCols = 3, getData = (\<lambda>a. 1)\<rparr>
          \<lparr>getRows = 2, getCols = 2, getData = (\<lambda>a. 1)\<rparr> FULL)
     = Inr (4, 4)"
  using get_convn_size_by_mode
    [of "\<lparr>sz_m = 3, sz_n = 3\<rparr>" "\<lparr>sz_m = 2, sz_n = 2\<rparr>" _
        "\<lambda>c r. (\<lparr>dim_x = 1, dim_y = 1, dim_z = 1\<rparr>, \<lparr>dim_x = 32, dim_y = 32, dim_z = 1\<rparr>)"
        "\<lambda>a. 0" "\<lparr>getRows = 3, getCols = 3, getData = (\<lambda>a. 1)\<rparr>"
        "\<lparr>getRows = 2, getCols = 2, getData = (\<lambda>a. 1)\<rparr>" FULL "\<lparr>sz_m = 4, sz_n = 4\<rparr>"]
  by simp

text \<open>
  C1 as the spec states it: a call of \<^verbatim>\<open>convn\<close> with SAME_SHM, VALID_SHM or FULL_SHM
  raises a fatal error. The three branches of the dispatcher are \<^verbatim>\<open>// TODO\<close> followed by
  \<^verbatim>\<open>break\<close>: nothing is thrown. On a 2 by 2 matrix of ones and the 1 by 1 kernel 1 the
  call with SAME_SHM returns normally, and the matrix it returns is the untouched
  allocation (here all zero), not the convolution (all one).
\<close>

theorem convn_SAME_SHM_returns:
  "convn (\<lambda>c r. (\<lparr>dim_x = 1, dim_y = 1, dim_z = 1\<rparr>, \<lparr>dim_x = 32, dim_y = 32, dim_z = 1\<rparr>))
     (\<lambda>a. 0)
     \<lparr>getRows = 2, getCols = 2, getData = (\<lambda>a. 1)\<rparr>
     \<lparr>getRows = 1, getCols = 1, getData = (\<lambda>a. 1)\<rparr> SAME_SHM
   = Inr \<lparr>getRows = 2, getCols = 2, getData = (\<lambda>a. 0)\<rparr>"
  by (simp add: convn_def get_convn_size_mat_def Let_def to_size_t_def)

text \<open>
  C1, amended: for SAME_SHM, VALID_SHM and FULL_SHM the dispatcher launches no kernel
  and returns normally; the result is the freshly allocated matrix, constructed from the
  size \<^verbatim>\<open>get_convn_size\<close> gives (its components converted to \<^verbatim>\<open>size_t\<close>), with the
  contents the allocation had. A call raises the fatal error exactly when the mode value
  is outside the six enumerators: with SAME, VALID and FULL, as with the three tiled
  modes, it returns normally.
\<close>

theorem convn_shm_modes_no_op:
  "convn alloc fresh data kern SAME_SHM
       = Inr \<lparr>getRows = to_size_t (int (getRows data)), getCols = to_size_t (int (getCols data)),
              getData = fresh\<rparr>
   \<and> convn alloc fresh data kern VALID_SHM
       = Inr \<lparr>getRows = to_size_t (max (int (getRows data) - int (getRows kern) + 1) 0),
              getCols = to_size_t (max (int (getCols data) - int (getCols kern) + 1) 0),
              getData = fresh\<rparr>
   \<and> convn alloc fresh data kern FULL_SHM
       = Inr \<lparr>getRows = to_size_t (int (getRows data) + int (getRows kern) - 1),
              getCols = to_size_t (int (getCols data) + int (getCols kern) - 1),
              getData = fresh\<rparr>
   \<and> convn alloc fresh data kern (Other_ConvType v) = Inl Unknown_type_of_convolution
   \<and> (isl (convn alloc fresh data kern type) \<longleftrightarrow> (\<exists>v. type = Other_ConvType v))"
proof -
  have shm: "convn alloc fresh data kern SAME_SHM
       = Inr \<lparr>getRows = to_size_t (int (getRows data)), getCols = to_size_t (int (getCols data)),
              getData = fresh\<rparr>"
    "convn alloc fresh data kern VALID_SHM
       = Inr \<lparr>getRows = to_size_t (max (int (getRows data) - int (getRows kern) + 1) 0),
              getCols = to_size_t (max (int (getCols data) - int (getCols kern) + 1) 0),
              getData = fresh\<rparr>"
    "convn alloc fresh data kern FULL_SHM
       = Inr \<lparr>getRows = to_size_t (int (getRows data) + int (getRows kern) - 1),
              getCols = to_size_t (int (getCols data) + int (getCols kern) - 1),
              getData = fresh\<rparr>"
    "convn alloc fresh data kern (Other_ConvType v) = Inl Unknown_type_of_convolution"
    by (simp_all add: convn_def get_convn_size_mat_def Let_def SIZE_max_def SIZE_add_scalar_def
        SIZE_sub_def SIZE_sub_scalar_def SIZE_add_def split: prod.splits)
  have raises: "isl (convn alloc fresh data kern type) \<longleftrightarrow> (\<exists>v. type = Other_ConvType v)"
    by (cases type) (simp_all add: convn_def get_convn_size_mat_def Let_def split: prod.splits)
  from shm raises show ?thesis by simp
qed

text \<open>
  C5 as the spec states it: the block is never shrunk below 32 threads. The loop runs
  while the footprint is over the budget and the block has at least 32 threads, so a
  block of 32 threads that is still over the budget is halved once more. Starting from
  a 32 by 32 block, a 76 by 76 kernel ends with a 4 by 4 block, 16 threads, and the
  function returns normally with it.
\<close>

theorem getSuitableShmConfig_shrinks_below_32:
  "getSuitableShmConfig \<lparr>dim_x = 1, dim_y = 1, dim_z = 1\<rparr> \<lparr>dim_x = 32, dim_y = 32, dim_z = 1\<rparr> 76 76
     = Inr (\<lparr>dim_x = 8, dim_y = 8, dim_z = 1\<rparr>, \<lparr>dim_x = 4, dim_y = 4, dim_z = 1\<rparr>, 48068)
   \<and> unat (dim_x \<lparr>dim_x = 4, dim_y = 4, dim_z = 1\<rparr>) * unat (dim_y \<lparr>dim_x = 4, dim_y = 4, dim_z = 1\<rparr>)
     = 16"
  by (simp add: getSuitableShmConfig_def getSuitableShmConfig_while.simps SHM_SIZE_of_def
      MAX_SHARED_MEMORY_SIZE_def)

text \<open>
  C5, amended: while the footprint
  \<^verbatim>\<open>(kH*kW + (block.x+kW-1)*(block.y+kH-1)) * sizeof(float)\<close> (the sum in 32-bit unsigned
  arithmetic) exceeds the budget of 48*1024 bytes and the block still has at least 32
  threads, \<^verbatim>\<open>getSuitableShmConfig\<close> halves the block axis that is currently larger (x on
  a tie) and doubles the same grid axis; it stops as soon as the footprint fits or the
  block has fewer than 32 threads. On normal return the byte count is the footprint of
  the final block and is at most the budget; otherwise the error reports the footprint
  of the final block, which is over the budget, and that block has fewer than 32
  threads.
\<close>

theorem getSuitableShmConfig_contract:
  "getSuitableShmConfig grids threads kH kW =
     (if MAX_SHARED_MEMORY_SIZE < SHM_SIZE_of threads kH kW \<and> 32 \<le> dim_x threads * dim_y threads
      then (if dim_y threads \<le> dim_x threads
            then getSuitableShmConfig (grids\<lparr>dim_x := dim_x grids * 2\<rparr>)
                   (threads\<lparr>dim_x := dim_x threads div 2\<rparr>) kH kW
            else getSuitableShmConfig (grids\<lparr>dim_y := dim_y grids * 2\<rparr>)
                   (threads\<lparr>dim_y := dim_y threads div 2\<rparr>) kH kW)
      else if MAX_SHARED_MEMORY_SIZE < SHM_SIZE_of threads kH kW
           then Inl (Exceeds_maximum_shared_memory kH kW grids threads (SHM_SIZE_of threads kH kW))
           else Inr (grids, threads, SHM_SIZE_of threads kH kW))
   \<and> (\<forall>g' t' sz. getSuitableShmConfig grids threads kH kW = Inr (g', t', sz) \<longrightarrow>
         sz = SHM_SIZE_of t' kH kW \<and> sz \<le> MAX_SHARED_MEMORY_SIZE \<and> MAX_SHARED_MEMORY_SIZE = 49152)
   \<and> (\<forall>e. getSuitableShmConfig grids threads kH kW = Inl e \<longrightarrow>
         (\<exists>g' t'. e = Exceeds_maximum_shared_memory kH kW g' t' (SHM_SIZE_of t' kH kW)
            \<and> MAX_SHARED_MEMORY_SIZE < SHM_SIZE_of t' kH kW \<and> dim_x t' * dim_y t' < 32))"
proof (intro conjI allI impI)
  show "getSuitableShmConfig grids threads kH kW =
     (if MAX_SHARED_MEMORY_SIZE < SHM_SIZE_of threads kH kW \<and> 32 \<le> dim_x threads * dim_y threads
      then (if dim_y threads \<le> dim_x threads
            then getSuitableShmConfig (grids\<lparr>dim_x := dim_x grids * 2\<rparr>)
                   (threads\<lparr>dim_x := dim_x threads div 2\<rparr>) kH kW
            else getSuitableShmConfig (grids\<lparr>dim_y := dim_y grids * 2\<rparr>)
                   (threads\<lparr>dim_y := dim_y threads div 2\<rparr>) kH kW)
      else if MAX_SHARED_MEMORY_SIZE < SHM_SIZE_of threads kH kW
           then Inl (Exceeds_maximum_shared_memory kH kW grids threads (SHM_SIZE_of threads kH kW))
           else Inr (grids, threads, SHM_SIZE_of threads kH kW))"
    by (rule getSuitableShmConfig_unfold)
next
  fix g' t' sz
  assume "getSuitableShmConfig grids threads kH kW = Inr (g', t', sz)"
  then show "sz = SHM_SIZE_of t' kH kW" "sz \<le> MAX_SHARED_MEMORY_SIZE"
    by (simp_all add: getSuitableShmConfig_Inr)
next
  show "MAX_SHARED_MEMORY_SIZE = 49152" by (simp add: MAX_SHARED_MEMORY_SIZE_def)
next
  fix e
  assume "getSuitableShmConfig grids threads kH kW = Inl e"
  then show "\<exists>g' t'. e = Exceeds_maximum_shared_memory kH kW g' t' (SHM_SIZE_of t' kH kW)
            \<and> MAX_SHARED_MEMORY_SIZE < SHM_SIZE_of t' kH kW \<and> dim_x t' * dim_y t' < 32"
    by (rule getSuitableShmConfig_Inl)
qed

text \<open>
  The contract at two inputs: a 60 by 60 kernel fits a 32 by 32 block as it is, and
  the returned byte count is the footprint; a 200 by 200 kernel does not fit any block
  the loop reaches, and the error reports the footprint of the last one.
\<close>

theorem getSuitableShmConfig_contract_witness:
  "getSuitableShmConfig \<lparr>dim_x = 1, dim_y = 1, dim_z = 1\<rparr> \<lparr>dim_x = 32, dim_y = 32, dim_z = 1\<rparr> 60 60
     = Inr (\<lparr>dim_x = 1, dim_y = 1, dim_z = 1\<rparr>, \<lparr>dim_x = 32, dim_y = 32, dim_z = 1\<rparr>, 47524)
   \<and> 47524 = SHM_SIZE_of \<lparr>dim_x = 32, dim_y = 32, dim_z = 1\<rparr> 60 60
   \<and> (47524 :: nat) \<le> MAX_SHARED_MEMORY_SIZE
   \<and> (\<exists>g' t'. Exceeds_maximum_shared_memory 200 200 \<lparr>dim_x = 8, dim_y = 8, dim_z = 1\<rparr>
                 \<lparr>dim_x = 4, dim_y = 4, dim_z = 1\<rparr> 324836
               = Exceeds_maximum_shared_memory 200 200 g' t' (SHM_SIZE_of t' 200 200)
             \<and> MAX_SHARED_MEMORY_SIZE < SHM_SIZE_of t' 200 200 \<and> dim_x t' * dim_y t' < 32)"
proof -
  let ?G = "\<lparr>dim_x = 1, dim_y = 1, dim_z = 1\<rparr>"
  let ?T = "\<lparr>dim_x = 32, dim_y = 32, dim_z = 1\<rparr>"
  have fits: "getSuitableShmConfig ?G ?T 60 60 = Inr (?G, ?T, 47524)"
    by (simp add: getSuitableShmConfig_def getSuitableShmConfig_while.simps SHM_SIZE_of_def
        MAX_SHARED_MEMORY_SIZE_def)
  have over: "getSuitableShmConfig ?G ?T 200 200
      = Inl (Exceeds_maximum_shared_memory 200 200 \<lparr>dim_x = 8, dim_y = 8, dim_z = 1\<rparr>
               \<lparr>dim_x = 4, dim_y = 4, dim_z = 1\<rparr> 324836)"
    by (simp add: getSuitableShmConfig_def getSuitableShmConfig_while.simps SHM_SIZE_of_def
        MAX_SHARED_MEMORY_SIZE_def)
  from getSuitableShmConfig_contract [of ?G ?T 60 60] fits
  have "47524 = SHM_SIZE_of ?T 60 60 \<and> (47524 :: nat) \<le> MAX_SHARED_MEMORY_SIZE"
    by blast
  moreover from getSuitableShmConfig_contract [of ?G ?T 200 200] over
  have "\<exists>g' t'. Exceeds_maximum_shared_memory 200 200 \<lparr>dim_x = 8, dim_y = 8, dim_z = 1\<rparr>
                 \<lparr>dim_x = 4, dim_y = 4, dim_z = 1\<rparr> 324836
               = Exceeds_maximum_shared_memory 200 200 g' t' (SHM_SIZE_of t' 200 200)
             \<and> MAX_SHARED_MEMORY_SIZE < SHM_SIZE_of t' 200 200 \<and> dim_x t' * dim_y t' < 32"
    by blast
  ultimately show ?thesis using fits by blast
qed

section \<open>Agreement of the direct and the tiled kernels\<close>

text \<open>
  Claim C7. For the same image and kernel, the direct kernel and the tiled kernel (template
  arguments \<open><false, false>\<close>, all steps zero, started on a zeroed output) leave the same
  value in every pixel of the output, in the valid and in the full mode, whenever each of the two
  launch configurations covers the output. The two configurations are independent, so the
  statement includes the case where the tiling scheduler has shrunk the blocks.
\<close>

theorem direct_and_tiled_kernels_agree:
  assumes "0 < kH" "0 < kW" "unat (dim_z G) = 1" "unat (dim_z G') = 1" "0 \<le> x" "0 \<le> y"
  shows "(covers G T (W - kW + 1) (H - kH + 1) \<and> covers G' T' (W - kW + 1) (H - kH + 1)
            \<and> x < W - kW + 1 \<and> y < H - kH + 1 \<longrightarrow>
          launch G T (convn_valid_kernel data kern H W kH kW) out (x * (H - kH + 1) + y)
          = convn_valid_kernel_with_shm False False G' T' shm0 0 (H - kH + 1) (W - kW + 1)
              data H W kern kH kW 0 0 0 (\<lambda>a. 0) (x * (H - kH + 1) + y))
       \<and> (covers G T (W + kW - 1) (H + kH - 1) \<and> covers G' T' (W + kW - 1) (H + kH - 1)
            \<and> x < W + kW - 1 \<and> y < H + kH - 1 \<longrightarrow>
          launch G T (convn_full_kernel data kern H W kH kW) out (x * (H + kH - 1) + y)
          = convn_full_kernel_with_shm False False G' T' shm0 0 (H + kH - 1) (W + kW - 1)
              data H W kern kH kW 0 0 0 (\<lambda>a. 0) (x * (H + kH - 1) + y))"
proof (intro conjI impI)
  assume a: "covers G T (W - kW + 1) (H - kH + 1) \<and> covers G' T' (W - kW + 1) (H - kH + 1)
            \<and> x < W - kW + 1 \<and> y < H - kH + 1"
  have "launch G T (convn_valid_kernel data kern H W kH kW) out (x * (H - kH + 1) + y)
      = valid_conv data H kern kH kW x y"
    using a assms by (intro direct_valid_pixel) simp_all
  moreover have "convn_valid_kernel_with_shm False False G' T' shm0 0 (H - kH + 1) (W - kW + 1)
              data H W kern kH kW 0 0 0 (\<lambda>a. 0) (x * (H - kH + 1) + y)
      = 0 + valid_conv data H kern kH kW x y"
    using a assms by (intro tiled_valid_pixel) simp_all
  ultimately show "launch G T (convn_valid_kernel data kern H W kH kW) out (x * (H - kH + 1) + y)
          = convn_valid_kernel_with_shm False False G' T' shm0 0 (H - kH + 1) (W - kW + 1)
              data H W kern kH kW 0 0 0 (\<lambda>a. 0) (x * (H - kH + 1) + y)"
    by simp
next
  assume a: "covers G T (W + kW - 1) (H + kH - 1) \<and> covers G' T' (W + kW - 1) (H + kH - 1)
            \<and> x < W + kW - 1 \<and> y < H + kH - 1"
  have "launch G T (convn_full_kernel data kern H W kH kW) out (x * (H + kH - 1) + y)
      = full_conv data H W kern kH kW x y"
    using a assms by (intro direct_full_pixel) simp_all
  moreover have "convn_full_kernel_with_shm False False G' T' shm0 0 (H + kH - 1) (W + kW - 1)
              data H W kern kH kW 0 0 0 (\<lambda>a. 0) (x * (H + kH - 1) + y)
      = 0 + full_conv data H W kern kH kW x y"
    using a assms by (intro tiled_full_pixel) simp_all
  ultimately show "launch G T (convn_full_kernel data kern H W kH kW) out (x * (H + kH - 1) + y)
          = convn_full_kernel_with_shm False False G' T' shm0 0 (H + kH - 1) (W + kW - 1)
              data H W kern kH kW 0 0 0 (\<lambda>a. 0) (x * (H + kH - 1) + y)"
    by simp
qed

text \<open>
  The hypotheses are met by the configuration the scheduler returns for a 76 by 76 kernel on a
  100 by 100 image: blocks of 32 by 32 threads shrink to 4 by 4, and the two kernels agree.
\<close>

theorem direct_and_tiled_kernels_agree_witness:
  "getSuitableShmConfig \<lparr>dim_x = 6, dim_y = 6, dim_z = 1\<rparr> \<lparr>dim_x = 32, dim_y = 32, dim_z = 1\<rparr> 76 76
     = Inr (\<lparr>dim_x = 48, dim_y = 48, dim_z = 1\<rparr>, \<lparr>dim_x = 4, dim_y = 4, dim_z = 1\<rparr>, 48068)
   \<and> launch \<lparr>dim_x = 6, dim_y = 6, dim_z = 1\<rparr> \<lparr>dim_x = 32, dim_y = 32, dim_z = 1\<rparr>
         (convn_valid_kernel (\<lambda>a. real_of_int a) (\<lambda>a. real_of_int (a + 1)) 100 100 76 76)
         (\<lambda>a. 7) (3 * 25 + 4)
     = convn_valid_kernel_with_shm False False
         \<lparr>dim_x = 48, dim_y = 48, dim_z = 1\<rparr> \<lparr>dim_x = 4, dim_y = 4, dim_z = 1\<rparr> (\<lambda>b a. 9)
         0 25 25 (\<lambda>a. real_of_int a) 100 100 (\<lambda>a. real_of_int (a + 1)) 76 76 0 0 0
         (\<lambda>a. 0) (3 * 25 + 4)
   \<and> launch \<lparr>dim_x = 6, dim_y = 6, dim_z = 1\<rparr> \<lparr>dim_x = 32, dim_y = 32, dim_z = 1\<rparr>
         (convn_full_kernel (\<lambda>a. real_of_int a) (\<lambda>a. real_of_int (a + 1)) 100 100 76 76)
         (\<lambda>a. 7) (3 * 175 + 4)
     = convn_full_kernel_with_shm False False
         \<lparr>dim_x = 48, dim_y = 48, dim_z = 1\<rparr> \<lparr>dim_x = 4, dim_y = 4, dim_z = 1\<rparr> (\<lambda>b a. 9)
         0 175 175 (\<lambda>a. real_of_int a) 100 100 (\<lambda>a. real_of_int (a + 1)) 76 76 0 0 0
         (\<lambda>a. 0) (3 * 175 + 4)"
proof -
  let ?G = "\<lparr>dim_x = 6, dim_y = 6, dim_z = 1\<rparr>"
  let ?T = "\<lparr>dim_x = 32, dim_y = 32, dim_z = 1\<rparr>"
  let ?G' = "\<lparr>dim_x = 48, dim_y = 48, dim_z = 1\<rparr>"
  let ?T' = "\<lparr>dim_x = 4, dim_y = 4, dim_z = 1\<rparr>"
  have cfg: "getSuitableShmConfig ?G ?T 76 76 = Inr (?G', ?T', 48068)"
    by (simp add: getSuitableShmConfig_def getSuitableShmConfig_while.simps SHM_SIZE_of_def
        MAX_SHARED_MEMORY_SIZE_def)
  have c: "covers ?G ?T 25 25" "covers ?G' ?T' 25 25" "covers ?G ?T 175 175" "covers ?G' ?T' 175 175"
    by (simp_all add: covers_def)
  have h: "(0::int) < 76" "unat (dim_z ?G) = 1" "unat (dim_z ?G') = 1" "(0::int) \<le> 3" "(0::int) \<le> 4"
    by simp_all
  note inst = direct_and_tiled_kernels_agree [OF h(1) h(1) h(2) h(3) h(4) h(5),
      where W = 100 and H = 100 and T = "?T" and T' = "?T'", simplified]
  show ?thesis
    using cfg c inst by simp
qed

section \<open>Properties of the pooling kernels\<close>

text \<open>
  Claim C9, as the code has it. \<^verbatim>\<open>upsample_kernel\<close> lowers a source coordinate by one only when
  it is equal to the pooled size. When the sizes the kernel receives are those of a pooling by
  some factor \<open>s \<ge> 1\<close> (\<open>h = H div s\<close> and \<open>w = W div s\<close>, both at least one), every thread
  whose output coordinates are in range reads inside the \<open>h\<close> by \<open>w\<close> pooled map: the source
  coordinates are \<open>x div scale\<close> and \<open>y div scale\<close> cut off at \<open>h - 1\<close> and \<open>w - 1\<close>, with
  \<open>scale = H div h\<close>, so that the output rows and columns past the last full cell repeat the
  last pooled row and column.
\<close>

theorem upsample_kernel_read_in_bounds:
  fixes h w H W :: "8 word" and x y :: "16 word"
  assumes "0 < s" "uint h = uint H div s" "uint w = uint W div s" "0 < uint h" "0 < uint w"
    and "x = word_of_int (global_x t)" "y = word_of_int (global_y t)"
    and "uint x < uint H" "uint y < uint W"
  shows "uint (snd (upsample_source h w H x y)) = min (uint x div (uint H div uint h)) (uint h - 1)
       \<and> uint (fst (upsample_source h w H x y)) = min (uint y div (uint H div uint h)) (uint w - 1)
       \<and> uint (snd (upsample_source h w H x y)) < uint h
       \<and> uint (fst (upsample_source h w H x y)) < uint w
       \<and> 0 \<le> uint (fst (upsample_source h w H x y)) * uint h + uint (snd (upsample_source h w H x y))
       \<and> uint (fst (upsample_source h w H x y)) * uint h + uint (snd (upsample_source h w H x y))
           < uint h * uint w
       \<and> upsample_kernel dst src h w H W t out
           = out(dst + blockIdx_z t * uint H * uint W + (uint y * uint H + uint x)
                 := src (blockIdx_z t * uint h * uint w
                         + (uint (fst (upsample_source h w H x y)) * uint h
                            + uint (snd (upsample_source h w H x y)))))"
proof -
  note g = upsample_source_general [OF assms(1-5) assms(8,9)]
  define sy where "sy = uint (fst (upsample_source h w H x y))"
  define sx where "sx = uint (snd (upsample_source h w H x y))"
  have c: "0 < uint H div uint h" using g(4) assms(1) by simp
  have sxe: "sx = min (uint x div (uint H div uint h)) (uint h - 1)"
    and sye: "sy = min (uint y div (uint H div uint h)) (uint w - 1)"
    unfolding sx_def sy_def by (rule g(3), rule g(2))
  have x0: "0 \<le> uint x div (uint H div uint h)" and y0: "0 \<le> uint y div (uint H div uint h)"
    using c by (simp_all add: pos_imp_zdiv_nonneg_iff)
  have b: "0 \<le> sy" "sy \<le> uint w - 1" "0 \<le> sx" "sx \<le> uint h - 1"
    unfolding sxe sye using x0 y0 assms(4,5) by simp_all
  note ab = pooled_address_bound [OF b assms(4)]
  have k: "upsample_kernel dst src h w H W t out
           = out(dst + blockIdx_z t * uint H * uint W + (uint y * uint H + uint x)
                 := src (blockIdx_z t * uint h * uint w + (sy * uint h + sx)))"
    unfolding upsample_kernel_thread Let_def assms(6) [symmetric] assms(7) [symmetric]
      sy_def sx_def
    using assms(8,9) by simp
  show ?thesis
    unfolding sy_def [symmetric] sx_def [symmetric]
    using sxe sye b ab k by simp
qed

text \<open>
  An 11 by 5 image pooled by 2 (a 5 by 2 pooled map): the thread of pixel \<open>(10, 4)\<close> reads the
  last pooled pixel \<open>(4, 1)\<close>.
\<close>

theorem upsample_kernel_read_in_bounds_witness:
  "upsample_source 5 2 11 10 4 = (1, 4)
   \<and> upsample_kernel 0 (\<lambda>a. real_of_int a) 5 2 11 5
        \<lparr>blockDim_x = 16, blockDim_y = 16, blockIdx_x = 0, blockIdx_y = 0, blockIdx_z = 0,
         threadIdx_x = 10, threadIdx_y = 4, threadIdx_z = 0\<rparr> (\<lambda>a. 0) (4 * 11 + 10) = 1 * 5 + 4"
proof -
  let ?t = "\<lparr>blockDim_x = 16, blockDim_y = 16, blockIdx_x = 0, blockIdx_y = 0, blockIdx_z = 0,
         threadIdx_x = 10, threadIdx_y = 4, threadIdx_z = 0\<rparr>"
  have e: "upsample_source 5 2 11 10 4 = (1, 4)"
    by (simp add: upsample_source_def)
  have h: "(0::int) < 2" "uint (5 :: 8 word) = uint (11 :: 8 word) div 2"
    "uint (2 :: 8 word) = uint (5 :: 8 word) div 2" "0 < uint (5 :: 8 word)" "0 < uint (2 :: 8 word)"
    "(10 :: 16 word) = word_of_int (global_x ?t)" "(4 :: 16 word) = word_of_int (global_y ?t)"
    "uint (10 :: 16 word) < uint (11 :: 8 word)" "uint (4 :: 16 word) < uint (5 :: 8 word)"
    by (simp_all add: global_x_def global_y_def)
  note inst = upsample_kernel_read_in_bounds [OF h, where dst = 0 and src = "\<lambda>a. real_of_int a"
      and out = "\<lambda>a. 0"]
  show ?thesis using e inst by simp
qed

text \<open>
  Claim C9 as stated, for every thread in range, fails when the sizes are not those of a pooling:
  with \<open>h = 4\<close> and \<open>H = 11\<close> the scale is 2, the thread of \<open>x = 10\<close> is in range and its source
  coordinate is 5, which is not equal to \<open>h\<close> and so is not lowered; with \<open>w = 1\<close> the kernel reads
  element 5 of a pooled map of 4 elements.
\<close>

theorem upsample_kernel_reads_beyond_pooled_map:
  "uint (10 :: 16 word) < uint (11 :: 8 word) \<and> uint (0 :: 16 word) < uint (1 :: 8 word)
   \<and> upsample_source 4 1 11 10 0 = (0, 5)
   \<and> upsample_kernel 0 (\<lambda>a. real_of_int a) 4 1 11 1
        \<lparr>blockDim_x = 16, blockDim_y = 1, blockIdx_x = 0, blockIdx_y = 0, blockIdx_z = 0,
         threadIdx_x = 10, threadIdx_y = 0, threadIdx_z = 0\<rparr> (\<lambda>a. 0) 10 = 5"
  by (simp add: upsample_source_def upsample_kernel_def)

section \<open>Properties of the convolutional layer\<close>

text \<open>
  Claim C2 as the spec states it: the output of \<^verbatim>\<open>feedForward\<close> is the bias plus the sum of the
  cross-correlations of the input maps with the kernels, neither operand rotated. One input map
  \<open>(5, 7)\<close> of size 2 by 1, one output map, the 2 by 1 kernel \<open>(1, 0)\<close> and bias 0: the
  cross-correlation is \<open>1 * 5 + 0 * 7 = 5\<close>, and \<^verbatim>\<open>feedForward\<close> gives 7, because
  \<^verbatim>\<open>load_kernel_into_shm<false>\<close> stores the kernel turned by 180 degrees.
\<close>

theorem ConvolutionalLayer_feedForward_not_correlation:
  "map_sum id (\<lambda>fout. getData fout 0)
     (ConvolutionalLayer_feedForward
        (\<lambda>c r. (\<lparr>dim_x = 1, dim_y = 1, dim_z = 1\<rparr>, \<lparr>dim_x = 32, dim_y = 32, dim_z = 1\<rparr>))
        (\<lambda>j i b a. 0) (\<lambda>a. 0)
        \<lparr>getNumInputMaps = 1, getNumOutputMaps = 1, get_kernel_size = \<lparr>sz_m = 2, sz_n = 1\<rparr>,
         get_input_img_size = \<lparr>sz_m = 2, sz_n = 1\<rparr>,
         kernels = (\<lambda>i j a. if a = 0 then 1 else 0), bias = (\<lambda>j. 0)\<rparr>
        \<lparr>getRows = 3, getCols = 1, getData = (\<lambda>a. if a = 0 then 5 else if a = 1 then 7 else 1)\<rparr>)
   = Inr 7
   \<and> 0 + (\<Sum>i<(1::nat). valid_corr
              (ptr_add (\<lambda>a. if a = 0 then 5 else if a = 1 then 7 else 1) (int i * 2)) 2
              (\<lambda>a. if a = 0 then 1 else 0) 2 1 0 0) = 5"
proof -
  let ?alloc = "\<lambda>(c::int) (r::int). (\<lparr>dim_x = 1, dim_y = 1, dim_z = 1\<rparr>, \<lparr>dim_x = 32, dim_y = 32, dim_z = 1\<rparr>)"
  let ?L = "\<lparr>getNumInputMaps = 1, getNumOutputMaps = 1, get_kernel_size = \<lparr>sz_m = 2, sz_n = 1\<rparr>,
         get_input_img_size = \<lparr>sz_m = 2, sz_n = 1\<rparr>,
         kernels = (\<lambda>i j a. if a = (0::int) then 1 else (0::real)), bias = (\<lambda>j. 0)\<rparr>"
  let ?fin = "\<lparr>getRows = 3, getCols = 1,
     getData = (\<lambda>a. if a = (0::int) then 5 else if a = 1 then 7 else (1::real))\<rparr>"
  have "\<exists>fout. ConvolutionalLayer_feedForward ?alloc (\<lambda>j i b a. 0) (\<lambda>a. 0) ?L ?fin = Inr fout
          \<and> int (getRows fout) = (2 - 2 + 1) * (1 - 1 + 1) * int (getNumOutputMaps ?L) + 1
          \<and> getCols fout = getCols ?fin
          \<and> getData fout (int 0 * ((2 - 2 + 1) * (1 - 1 + 1)) + int 0 * int (getRows fout)
                           + (0 * (2 - 2 + 1) + 0))
            = bias ?L 0 + (\<Sum>i<getNumInputMaps ?L.
                 valid_conv (ptr_add (getData ?fin) (int i * (2 * 1) + int 0 * int (getRows ?fin)))
                   2 (kernels ?L i 0) 2 1 0 0)"
    by (rule ConvolutionalLayer_feedForward_pixel
          [where alloc = ?alloc and G = "\<lparr>dim_x = 1, dim_y = 1, dim_z = 1\<rparr>"
             and T = "\<lparr>dim_x = 32, dim_y = 32, dim_z = 1\<rparr>"
             and G' = "\<lparr>dim_x = 1, dim_y = 1, dim_z = 1\<rparr>"
             and T' = "\<lparr>dim_x = 32, dim_y = 32, dim_z = 1\<rparr>" and sz = 4232])
       (simp_all add: small_scheduler_config small_config_covers)
  then obtain fout where
    f: "ConvolutionalLayer_feedForward ?alloc (\<lambda>j i b a. 0) (\<lambda>a. 0) ?L ?fin = Inr fout"
    and v: "getData fout 0 = (\<Sum>i<(1::nat).
                 valid_conv (ptr_add (getData ?fin) (int i * 2)) 2 (kernels ?L i 0) 2 1 0 0)"
    by auto
  have vc: "(\<Sum>i<(1::nat). valid_conv (ptr_add (getData ?fin) (int i * 2)) 2 (kernels ?L i 0) 2 1 0 0) = 7"
    by (simp add: valid_conv_def ptr_add_def eval_nat_numeral)
  have vr: "(\<Sum>i<(1::nat). valid_corr
              (ptr_add (\<lambda>a. if a = 0 then 5 else if a = 1 then 7 else 1) (int i * 2)) 2
              (\<lambda>a. if a = 0 then 1 else 0) 2 1 0 0) = (5::real)"
    by (simp add: valid_corr_def ptr_add_def eval_nat_numeral)
  show ?thesis unfolding f using v vc vr by simp
qed


text \<open>
  Claim C2, amended. With the template arguments \<^verbatim>\<open><false, false>\<close> the tiled kernel convolves:
  for each batch element \<open>b\<close> and output map \<open>j\<close>, every pixel of the output of \<^verbatim>\<open>feedForward\<close>
  is the bias of map \<open>j\<close> plus the sum over the input maps \<open>i\<close> of the VALID convolution of
  input map \<open>i\<close> with \<^verbatim>\<open>kernel[i][j]\<close>, that is, of the cross-correlation with the kernel
  turned by 180 degrees, in exact arithmetic. The output has \<open>area * maps + 1\<close> rows and one
  column per batch element.
  This holds when the scheduler returns a configuration that has a thread for every output
  pixel, for kernels of positive size that fit the image, and matrices of fewer than \<open>2 ^ 31\<close>
  elements, so that no index or step leaves the range of \<^verbatim>\<open>int\<close>.
\<close>

theorem ConvolutionalLayer_feedForward_convolution:
  fixes H W kH kW x y :: int
  assumes "get_input_img_size L = \<lparr>sz_m = H, sz_n = W\<rparr>"
      "get_kernel_size L = \<lparr>sz_m = kH, sz_n = kW\<rparr>"
    and "alloc (W - kW + 1) (H - kH + 1) = (G, T)"
    and "getSuitableShmConfig (G\<lparr>dim_z := of_nat (getCols fin)\<rparr>) T kH kW = Inr (G', T', sz)"
    and "covers G' T' (W - kW + 1) (H - kH + 1)"
    and "int (getCols fin) * ((H - kH + 1) * (W - kW + 1) * int (getNumOutputMaps L) + 1)
           < 2 ^ 31"
    and "int (getCols fin) * int (getRows fin) < 2 ^ 31"
    and "0 < kH" "0 < kW"
    and "b < getCols fin" and "j < getNumOutputMaps L"
    and "0 \<le> x" "x < W - kW + 1" and "0 \<le> y" "y < H - kH + 1"
  shows "\<exists>fout. ConvolutionalLayer_feedForward alloc shm0 hmat0 L fin = Inr fout
          \<and> int (getRows fout) = (H - kH + 1) * (W - kW + 1) * int (getNumOutputMaps L) + 1
          \<and> getCols fout = getCols fin
          \<and> getData fout (int j * ((H - kH + 1) * (W - kW + 1)) + int b * int (getRows fout)
                           + (x * (H - kH + 1) + y))
            = bias L j + (\<Sum>i<getNumInputMaps L.
                 valid_conv (ptr_add (getData fin) (int i * (H * W) + int b * int (getRows fin)))
                   H (kernels L i j) kH kW x y)
          \<and> getData fout (int j * ((H - kH + 1) * (W - kW + 1)) + int b * int (getRows fout)
                           + (x * (H - kH + 1) + y))
            = bias L j + (\<Sum>i<getNumInputMaps L.
                 valid_corr (ptr_add (getData fin) (int i * (H * W) + int b * int (getRows fin)))
                   H (rot180 (kernels L i j) kH kW) kH kW x y)"
  using ConvolutionalLayer_feedForward_pixel
    [where alloc = alloc, OF assms, of shm0 hmat0]
  unfolding valid_conv_rot180 by auto

text \<open>
  Two input maps \<open>(1, 2)\<close> and \<open>(3, 4)\<close> of size 2 by 1, one output map, both kernels \<open>(1, 2)\<close>
  and bias 3: the output pixel is \<open>3 + (1 * 2 + 2 * 1) + (1 * 4 + 2 * 3) = 17\<close>.
\<close>

theorem ConvolutionalLayer_feedForward_convolution_witness:
  "map_sum id (\<lambda>fout. (getRows fout, getCols fout, getData fout 0))
     (ConvolutionalLayer_feedForward
        (\<lambda>c r. (\<lparr>dim_x = 1, dim_y = 1, dim_z = 1\<rparr>, \<lparr>dim_x = 32, dim_y = 32, dim_z = 1\<rparr>))
        (\<lambda>j i b a. 0) (\<lambda>a. 0)
        \<lparr>getNumInputMaps = 2, getNumOutputMaps = 1, get_kernel_size = \<lparr>sz_m = 2, sz_n = 1\<rparr>,
         get_input_img_size = \<lparr>sz_m = 2, sz_n = 1\<rparr>,
         kernels = (\<lambda>i j a. if a = 0 then 1 else 2), bias = (\<lambda>j. 3)\<rparr>
        \<lparr>getRows = 5, getCols = 1, getData = (\<lambda>a. real_of_int a + 1)\<rparr>)
   = Inr (2, 1, 17)"
proof -
  let ?alloc = "\<lambda>(c::int) (r::int). (\<lparr>dim_x = 1, dim_y = 1, dim_z = 1\<rparr>, \<lparr>dim_x = 32, dim_y = 32, dim_z = 1\<rparr>)"
  let ?L = "\<lparr>getNumInputMaps = 2, getNumOutputMaps = 1, get_kernel_size = \<lparr>sz_m = 2, sz_n = 1\<rparr>,
         get_input_img_size = \<lparr>sz_m = 2, sz_n = 1\<rparr>,
         kernels = (\<lambda>i j a. if a = (0::int) then 1 else (2::real)), bias = (\<lambda>j. 3)\<rparr>"
  let ?fin = "\<lparr>getRows = 5, getCols = 1, getData = (\<lambda>a. real_of_int a + 1)\<rparr>"
  have "\<exists>fout. ConvolutionalLayer_feedForward ?alloc (\<lambda>j i b a. 0) (\<lambda>a. 0) ?L ?fin = Inr fout
          \<and> int (getRows fout) = (2 - 2 + 1) * (1 - 1 + 1) * int (getNumOutputMaps ?L) + 1
          \<and> getCols fout = getCols ?fin
          \<and> getData fout (int 0 * ((2 - 2 + 1) * (1 - 1 + 1)) + int 0 * int (getRows fout)
                           + (0 * (2 - 2 + 1) + 0))
            = bias ?L 0 + (\<Sum>i<getNumInputMaps ?L.
                 valid_conv (ptr_add (getData ?fin) (int i * (2 * 1) + int 0 * int (getRows ?fin)))
                   2 (kernels ?L i 0) 2 1 0 0)
          \<and> getData fout (int 0 * ((2 - 2 + 1) * (1 - 1 + 1)) + int 0 * int (getRows fout)
                           + (0 * (2 - 2 + 1) + 0))
            = bias ?L 0 + (\<Sum>i<getNumInputMaps ?L.
                 valid_corr (ptr_add (getData ?fin) (int i * (2 * 1) + int 0 * int (getRows ?fin)))
                   2 (rot180 (kernels ?L i 0) 2 1) 2 1 0 0)"
    by (rule ConvolutionalLayer_feedForward_convolution
          [where alloc = ?alloc and G = "\<lparr>dim_x = 1, dim_y = 1, dim_z = 1\<rparr>"
             and T = "\<lparr>dim_x = 32, dim_y = 32, dim_z = 1\<rparr>"
             and G' = "\<lparr>dim_x = 1, dim_y = 1, dim_z = 1\<rparr>"
             and T' = "\<lparr>dim_x = 32, dim_y = 32, dim_z = 1\<rparr>" and sz = 4232])
       (simp_all add: small_scheduler_config small_config_covers)
  then obtain fout where
    f: "ConvolutionalLayer_feedForward ?alloc (\<lambda>j i b a. 0) (\<lambda>a. 0) ?L ?fin = Inr fout"
    and r: "getRows fout = 2" "getCols fout = 1"
    and v: "getData fout 0 = 3 + (\<Sum>i<(2::nat).
                 valid_conv (ptr_add (getData ?fin) (int i * 2)) 2 (kernels ?L i 0) 2 1 0 0)"
    by auto
  have vc: "(\<Sum>i<(2::nat). valid_conv (ptr_add (getData ?fin) (int i * 2)) 2 (kernels ?L i 0) 2 1 0 0)
      = 14"
    by (simp add: valid_conv_def ptr_add_def eval_nat_numeral)
  show ?thesis unfolding f using r v vc by simp
qed

text \<open>
  Claim C3. For each batch element \<open>b\<close> and input map \<open>i\<close>, every pixel of the upstream error
  \<^verbatim>\<open>feedBackward\<close> produces is the sum over the output maps \<open>j\<close> of the FULL convolution of the
  error of output map \<open>j\<close> with \<^verbatim>\<open>kernel[i][j]\<close> turned by 180 degrees, in exact arithmetic.
  Nothing else is added:
  the buffer is resized to \<open>area * maps + 1\<close> rows and filled with zero before the kernels
  accumulate into it. This holds when the scheduler returns a configuration that has a thread
  for every input pixel, for kernels of positive size, and matrices of fewer than \<open>2 ^ 31\<close>
  elements, so that no index or step leaves the range of \<^verbatim>\<open>int\<close>.
\<close>

theorem ConvolutionalLayer_feedBackward_full_convolution:
  fixes H W kH kW x y :: int
  assumes "get_input_img_size L = \<lparr>sz_m = H, sz_n = W\<rparr>"
      "get_kernel_size L = \<lparr>sz_m = kH, sz_n = kW\<rparr>"
    and "alloc W H = (G, T)"
    and "getSuitableShmConfig (G\<lparr>dim_z := of_nat (getCols delta)\<rparr>) T kH kW = Inr (G', T', sz)"
    and "covers G' T' W H"
    and "int (getCols delta) * (H * W * int (getNumInputMaps L) + 1) < 2 ^ 31"
    and "int (getCols delta) * int (getRows delta) < 2 ^ 31"
    and "0 < kH" "0 < kW"
    and "b < getCols delta" and "i < getNumInputMaps L"
    and "0 \<le> x" "x < W" and "0 \<le> y" "y < H"
  shows "\<exists>err. ConvolutionalLayer_feedBackward alloc shm0 L delta = Inr err
          \<and> int (getRows err) = H * W * int (getNumInputMaps L) + 1
          \<and> getCols err = getCols delta
          \<and> getData err (int i * (H * W) + int b * int (getRows err) + (x * H + y))
            = (\<Sum>j<getNumOutputMaps L.
                 full_conv (ptr_add (getData delta)
                              (int j * ((H - kH + 1) * (W - kW + 1)) + int b * int (getRows delta)))
                   (H - kH + 1) (W - kW + 1) (rot180 (kernels L i j) kH kW) kH kW x y)"
  using assms by (rule ConvolutionalLayer_feedBackward_pixel)

text \<open>
  One input map of size 2 by 1, one output map (of size 1 by 1) with error 10, and the kernel
  \<open>(1, 2)\<close>: the upstream error is \<open>(20, 10)\<close>, the error times the kernel turned around.
\<close>

theorem ConvolutionalLayer_feedBackward_full_convolution_witness:
  "map_sum id (\<lambda>err. (getRows err, getCols err, getData err 1))
     (ConvolutionalLayer_feedBackward
        (\<lambda>c r. (\<lparr>dim_x = 1, dim_y = 1, dim_z = 1\<rparr>, \<lparr>dim_x = 32, dim_y = 32, dim_z = 1\<rparr>))
        (\<lambda>j i b a. 0)
        \<lparr>getNumInputMaps = 1, getNumOutputMaps = 1, get_kernel_size = \<lparr>sz_m = 2, sz_n = 1\<rparr>,
         get_input_img_size = \<lparr>sz_m = 2, sz_n = 1\<rparr>,
         kernels = (\<lambda>i j a. if a = 0 then 1 else 2), bias = (\<lambda>j. 3)\<rparr>
        \<lparr>getRows = 2, getCols = 1, getData = (\<lambda>a. if a = 0 then 10 else 1)\<rparr>)
   = Inr (3, 1, 10)"
proof -
  let ?alloc = "\<lambda>(c::int) (r::int). (\<lparr>dim_x = 1, dim_y = 1, dim_z = 1\<rparr>, \<lparr>dim_x = 32, dim_y = 32, dim_z = 1\<rparr>)"
  let ?L = "\<lparr>getNumInputMaps = 1, getNumOutputMaps = 1, get_kernel_size = \<lparr>sz_m = 2, sz_n = 1\<rparr>,
         get_input_img_size = \<lparr>sz_m = 2, sz_n = 1\<rparr>,
         kernels = (\<lambda>i j a. if a = (0::int) then 1 else (2::real)), bias = (\<lambda>j. 3)\<rparr>"
  let ?delta = "\<lparr>getRows = 2, getCols = 1, getData = (\<lambda>a. if a = (0::int) then 10 else (1::real))\<rparr>"
  have "\<exists>err. ConvolutionalLayer_feedBackward ?alloc (\<lambda>j i b a. 0) ?L ?delta = Inr err
          \<and> int (getRows err) = 2 * 1 * int (getNumInputMaps ?L) + 1
          \<and> getCols err = getCols ?delta
          \<and> getData err (int 0 * (2 * 1) + int 0 * int (getRows err) + (0 * 2 + 1))
            = (\<Sum>j<getNumOutputMaps ?L.
                 full_conv (ptr_add (getData ?delta)
                              (int j * ((2 - 2 + 1) * (1 - 1 + 1)) + int 0 * int (getRows ?delta)))
                   (2 - 2 + 1) (1 - 1 + 1) (rot180 (kernels ?L 0 j) 2 1) 2 1 0 1)"
    by (rule ConvolutionalLayer_feedBackward_full_convolution
          [where alloc = ?alloc and G = "\<lparr>dim_x = 1, dim_y = 1, dim_z = 1\<rparr>"
             and T = "\<lparr>dim_x = 32, dim_y = 32, dim_z = 1\<rparr>"
             and G' = "\<lparr>dim_x = 1, dim_y = 1, dim_z = 1\<rparr>"
             and T' = "\<lparr>dim_x = 32, dim_y = 32, dim_z = 1\<rparr>" and sz = 4232])
       (simp_all add: small_scheduler_config small_config_covers)
  then obtain err where
    f: "ConvolutionalLayer_feedBackward ?alloc (\<lambda>j i b a. 0) ?L ?delta = Inr err"
    and r: "getRows err = 3" "getCols err = 1"
    and v: "getData err 1 = (\<Sum>j<(1::nat).
                 full_conv (ptr_add (getData ?delta) (int j)) 1 1 (rot180 (kernels ?L 0 j) 2 1) 2 1 0 1)"
    by auto
  have vc: "(\<Sum>j<(1::nat).
                 full_conv (ptr_add (getData ?delta) (int j)) 1 1 (rot180 (kernels ?L 0 j) 2 1) 2 1 0 1)
      = 10"
    by (simp add: full_conv_def ptr_add_def rot180_def eval_nat_numeral)
  show ?thesis unfolding f using r v vc by simp
qed

section \<open>The trailing row of the layer outputs\<close>




section \<open>Properties of the pooling layer\<close>

text \<open>
  Claim C8 as the spec states it: every pixel of the upstream error is the downstream error at
  the pooled coordinate, the pixel coordinate divided by the scale, times \<open>1 / s\<^sup>2\<close>. The kernel
  does not divide by the scale of the layer but by \<open>H / h\<close>, computed from the two image
  heights. One 8 by 3 map pooled by 3 has a 2 by 1 pooled map and \<open>H / h = 4\<close>: the pixel
  \<open>x = 3\<close> belongs to the pooled cell \<open>3 div 3 = 1\<close>, and the kernel reads the cell
  \<open>3 div 4 = 0\<close>. With the downstream error \<open>(9, 18)\<close> the claimed value is \<open>18 / 9 = 2\<close> and
  \<^verbatim>\<open>feedBackward\<close> gives \<open>9 / 9 = 1\<close>.
\<close>

theorem SubSamplingLayer_feedBackward_wrong_cell:
  "getData (SubSamplingLayer_feedBackward
        (\<lambda>c r. (\<lparr>dim_x = 1, dim_y = 1, dim_z = 1\<rparr>, \<lparr>dim_x = 32, dim_y = 32, dim_z = 1\<rparr>))
        (\<lambda>a. 0)
        \<lparr>sub_getNumInputMaps = 1, sub_getNumOutputMaps = 1,
         sub_get_input_img_size = \<lparr>sz_m = 8, sz_n = 3\<rparr>, sub_scale = 3\<rparr>
        \<lparr>getRows = 3, getCols = 1, getData = (\<lambda>a. 9 * (real_of_int a + 1))\<rparr>) 3 = 1
   \<and> (\<lambda>a. 9 * (real_of_int a + 1)) ((0 div 3) * (8 div 3) + 3 div 3) * (1 / real (3 * 3)) = 2"
proof -
  let ?alloc = "\<lambda>(c::int) (r::int). (\<lparr>dim_x = 1, dim_y = 1, dim_z = 1\<rparr>, \<lparr>dim_x = 32, dim_y = 32, dim_z = 1\<rparr>)"
  let ?L = "\<lparr>sub_getNumInputMaps = 1, sub_getNumOutputMaps = 1,
         sub_get_input_img_size = \<lparr>sz_m = 8, sz_n = 3\<rparr>, sub_scale = 3\<rparr>"
  let ?delta = "\<lparr>getRows = 3, getCols = 1, getData = (\<lambda>a. 9 * (real_of_int a + 1))\<rparr>"
  have src: "upsample_source (word_of_int (8 div int (sub_scale ?L)))
                (word_of_int (3 div int (sub_scale ?L))) (word_of_int 8)
                (word_of_int 3) (word_of_int 0) = (0, 0)"
    by (simp add: upsample_source_def)
  have "getData (SubSamplingLayer_feedBackward ?alloc (\<lambda>a. 0) ?L ?delta)
           (int 0 * (8 * 3 * int (sub_getNumInputMaps ?L) + 1) + int 0 * (8 * 3) + (0 * 8 + 3))
       = getData ?delta (int 0 * int (getRows ?delta)
           + (int 0 * ((8 div int (sub_scale ?L)) * (3 div int (sub_scale ?L)))
              + (uint (fst (upsample_source (word_of_int (8 div int (sub_scale ?L)))
                              (word_of_int (3 div int (sub_scale ?L))) (word_of_int 8)
                              (word_of_int 3) (word_of_int 0)))
                   * (8 div int (sub_scale ?L))
                 + uint (snd (upsample_source (word_of_int (8 div int (sub_scale ?L)))
                              (word_of_int (3 div int (sub_scale ?L))) (word_of_int 8)
                              (word_of_int 3) (word_of_int 0))))))
         * (1 / real (sub_scale ?L * sub_scale ?L))"
    by (rule SubSamplingLayer_feedBackward_pixel(2)
          [where alloc = ?alloc and G = "\<lparr>dim_x = 1, dim_y = 1, dim_z = 1\<rparr>"
             and T = "\<lparr>dim_x = 32, dim_y = 32, dim_z = 1\<rparr>"])
       (simp_all add: small_pooling_config_covers)
  then show ?thesis unfolding src by simp
qed

text \<open>
  Claim C8, amended. When the pooling scale \<open>s \<ge> 1\<close> divides both sizes of the input image and
  the sizes are below 256, every pixel of the upstream error \<^verbatim>\<open>feedBackward\<close> produces is the
  downstream error at the pooled coordinate \<open>(x div s, y div s)\<close> of the same map and batch
  element, times \<open>1 / s\<^sup>2\<close>; the matrix has \<open>area * maps + 1\<close> rows. This holds for a launch
  configuration with a thread for every input pixel and fewer than \<open>2 ^ 32\<close> maps.
\<close>

theorem SubSamplingLayer_feedBackward_upsamples:
  fixes H W x y :: int
  assumes "sub_get_input_img_size L = \<lparr>sz_m = H, sz_n = W\<rparr>"
    and "0 < sub_scale L" "int (sub_scale L) dvd H" "int (sub_scale L) dvd W"
    and "H < 256" "W < 256"
    and "alloc H W = (G, T)"
    and "covers G T H W"
    and "sub_getNumInputMaps L < 2 ^ 32"
    and "b < getCols delta" and "z < sub_getNumInputMaps L"
    and "0 \<le> x" "x < H" and "0 \<le> y" "y < W"
  shows "getRows (SubSamplingLayer_feedBackward alloc resized L delta)
           = nat (H * W * int (sub_getNumInputMaps L) + 1)
       \<and> getData (SubSamplingLayer_feedBackward alloc resized L delta)
           (int b * (H * W * int (sub_getNumInputMaps L) + 1) + int z * (H * W) + (y * H + x))
         = getData delta (int b * int (getRows delta)
             + (int z * ((H div int (sub_scale L)) * (W div int (sub_scale L)))
                + ((y div int (sub_scale L)) * (H div int (sub_scale L))
                   + x div int (sub_scale L))))
           * (1 / real (sub_scale L * sub_scale L))"
  using assms by (rule SubSamplingLayer_feedBackward_exact)

text \<open>
  Scale 2 on one 4 by 4 map with an all-ones downstream error: the upstream error has 17 rows
  and its pixel \<open>(3, 2)\<close> is 0.25.
\<close>

theorem SubSamplingLayer_feedBackward_upsamples_witness:
  "getRows (SubSamplingLayer_feedBackward
        (\<lambda>c r. (\<lparr>dim_x = 1, dim_y = 1, dim_z = 1\<rparr>, \<lparr>dim_x = 32, dim_y = 32, dim_z = 1\<rparr>))
        (\<lambda>a. 0)
        \<lparr>sub_getNumInputMaps = 1, sub_getNumOutputMaps = 1,
         sub_get_input_img_size = \<lparr>sz_m = 4, sz_n = 4\<rparr>, sub_scale = 2\<rparr>
        \<lparr>getRows = 5, getCols = 1, getData = (\<lambda>a. 1)\<rparr>) = 17
   \<and> getData (SubSamplingLayer_feedBackward
        (\<lambda>c r. (\<lparr>dim_x = 1, dim_y = 1, dim_z = 1\<rparr>, \<lparr>dim_x = 32, dim_y = 32, dim_z = 1\<rparr>))
        (\<lambda>a. 0)
        \<lparr>sub_getNumInputMaps = 1, sub_getNumOutputMaps = 1,
         sub_get_input_img_size = \<lparr>sz_m = 4, sz_n = 4\<rparr>, sub_scale = 2\<rparr>
        \<lparr>getRows = 5, getCols = 1, getData = (\<lambda>a. 1)\<rparr>) 11 = 1 / 4"
proof -
  let ?alloc = "\<lambda>(c::int) (r::int). (\<lparr>dim_x = 1, dim_y = 1, dim_z = 1\<rparr>, \<lparr>dim_x = 32, dim_y = 32, dim_z = 1\<rparr>)"
  let ?L = "\<lparr>sub_getNumInputMaps = 1, sub_getNumOutputMaps = 1,
         sub_get_input_img_size = \<lparr>sz_m = 4, sz_n = 4\<rparr>, sub_scale = 2\<rparr>"
  let ?delta = "\<lparr>getRows = 5, getCols = 1, getData = (\<lambda>a. (1::real))\<rparr>"
  have "getRows (SubSamplingLayer_feedBackward ?alloc (\<lambda>a. 0) ?L ?delta)
           = nat (4 * 4 * int (sub_getNumInputMaps ?L) + 1)
       \<and> getData (SubSamplingLayer_feedBackward ?alloc (\<lambda>a. 0) ?L ?delta)
           (int 0 * (4 * 4 * int (sub_getNumInputMaps ?L) + 1) + int 0 * (4 * 4) + (2 * 4 + 3))
         = getData ?delta (int 0 * int (getRows ?delta)
             + (int 0 * ((4 div int (sub_scale ?L)) * (4 div int (sub_scale ?L)))
                + ((2 div int (sub_scale ?L)) * (4 div int (sub_scale ?L))
                   + 3 div int (sub_scale ?L))))
           * (1 / real (sub_scale ?L * sub_scale ?L))"
    by (rule SubSamplingLayer_feedBackward_upsamples
          [where alloc = ?alloc and G = "\<lparr>dim_x = 1, dim_y = 1, dim_z = 1\<rparr>"
             and T = "\<lparr>dim_x = 32, dim_y = 32, dim_z = 1\<rparr>"])
       (simp_all add: small_pooling_config_covers)
  then show ?thesis by simp
qed



end
